theory Spec2Isabelle
  imports Complex_Main "HOL-Library.AList"
begin

section \<open>Fixture generation for the chain-state validator (scripts/data/generate\_data.py)\<close>

text \<open>
  A shallow embedding of \<^verbatim>\<open>generate_data.py\<close>. Python dictionaries with a fixed set of
  keys are records, Python's unbounded integers are \<open>int\<close>, an ordered dictionary is an
  association list with distinct keys, every exception the script can raise is a value of
  \<open>py_error\<close>, and the JSON-RPC node and the three data providers are functions packed in
  one record, a failed call being \<open>None\<close>.
\<close>

subsection \<open>Errors\<close>

datatype py_error =
    LookupFailed
  | KeyError
  | IndexError
  | ValueError
  | AssertionError
  | NotImplementedError
  | ProviderError
  | TypeError

text \<open>Sequencing of calls that may raise: the first error ends the computation.\<close>

definition and_then :: "py_error + 'a \<Rightarrow> ('a \<Rightarrow> py_error + 'b) \<Rightarrow> py_error + 'b" where
  "and_then r f = (case r of Inl e \<Rightarrow> Inl e | Inr v \<Rightarrow> f v)"

text \<open>A list comprehension over a call that may raise.\<close>

fun map_err :: "('a \<Rightarrow> py_error + 'b) \<Rightarrow> 'a list \<Rightarrow> py_error + 'b list" where
  "map_err f [] = Inr []"
| "map_err f (x # xs) =
     (case f x of
        Inl e \<Rightarrow> Inl e
      | Inr y \<Rightarrow> (case map_err f xs of Inl e \<Rightarrow> Inl e | Inr ys \<Rightarrow> Inr (y # ys)))"

subsection \<open>Python list slicing and indexing\<close>

text \<open>\<^verbatim>\<open>xs[-n:]\<close> for a literal \<open>n\<close>: the last \<open>n\<close> items, all of them when the list is
  shorter (and all of them for \<open>n = 0\<close>, where \<^verbatim>\<open>-0\<close> is \<^verbatim>\<open>0\<close>).\<close>

definition slice_last :: "nat \<Rightarrow> 'a list \<Rightarrow> 'a list" where
  "slice_last n xs = (if n = 0 then xs else drop (length xs - n) xs)"

text \<open>\<^verbatim>\<open>xs[i]\<close>: a negative index counts from the end, an index out of range raises.\<close>

definition py_index :: "'a list \<Rightarrow> int \<Rightarrow> py_error + 'a" where
  "py_index xs i =
     (if 0 \<le> i \<and> i < int (length xs) then Inr (xs ! nat i)
      else if i < 0 \<and> - int (length xs) \<le> i then Inr (xs ! nat (int (length xs) + i))
      else Inl IndexError)"

subsection \<open>Block headers and chain state\<close>

text \<open>The header dictionary of \<^verbatim>\<open>getblockheader\<close>. The genesis header has no
  \<^verbatim>\<open>previousblockhash\<close> key and the tip has no \<^verbatim>\<open>nextblockhash\<close> key.\<close>

record header =
  hash :: string
  height :: int
  version :: int
  time :: int
  bits :: string
  nonce :: int
  chainwork :: string
  mediantime :: int
  merkleroot :: string
  previousblockhash :: "string option"
  nextblockhash :: "string option"

text \<open>A chain state is a header dictionary with two more keys.\<close>

record chain_state = header +
  prev_timestamps :: "int list"
  epoch_start_time :: int

text \<open>\<^verbatim>\<open>next_chain_state\<close>: the copy of the new block with the two keys recomputed. The
  new block is any dictionary with the header's keys (a full block carries its
  transactions as well; a chain state is never read at those keys).\<close>

definition next_chain_state :: "chain_state \<Rightarrow> 'a header_scheme \<Rightarrow> chain_state" where
  "next_chain_state current_state new_block =
     header.extend (header.truncate new_block)
       (chain_state.fields
          (slice_last 11 (prev_timestamps current_state @ [time new_block]))
          (if height new_block mod 2016 = 0 then time new_block
           else epoch_start_time current_state))"

subsection \<open>Compact target\<close>

definition hex_digit :: "char \<Rightarrow> nat option" where
  "hex_digit c =
     (let n = (of_char c :: nat) in
      if 48 \<le> n \<and> n \<le> 57 then Some (n - 48)
      else if 97 \<le> n \<and> n \<le> 102 then Some (n - 87)
      else if 65 \<le> n \<and> n \<le> 70 then Some (n - 55)
      else None)"

definition is_space :: "char \<Rightarrow> bool" where
  "is_space c = (let n = (of_char c :: nat) in (9 \<le> n \<and> n \<le> 13) \<or> n = 32)"

text \<open>\<^verbatim>\<open>bytes.fromhex\<close>: two hexadecimal digits a byte, ASCII whitespace skipped before a
  byte, anything else a \<^verbatim>\<open>ValueError\<close>.\<close>

fun fromhex :: "string \<Rightarrow> py_error + nat list" where
  "fromhex [] = Inr []"
| "fromhex (a # cs) =
     (if is_space a then fromhex cs
      else case cs of
          [] \<Rightarrow> Inl ValueError
        | b # ds \<Rightarrow>
            (case hex_digit a of
               None \<Rightarrow> Inl ValueError
             | Some x \<Rightarrow>
                 (case hex_digit b of
                    None \<Rightarrow> Inl ValueError
                  | Some y \<Rightarrow>
                      (case fromhex ds of
                         Inl e \<Rightarrow> Inl e
                       | Inr bs \<Rightarrow> Inr ((16 * x + y) # bs)))))"

text \<open>\<^verbatim>\<open>int.from_bytes(bs, "big")\<close>.\<close>

definition from_bytes_big :: "nat list \<Rightarrow> int" where
  "from_bytes_big bs = foldl (\<lambda>acc b. acc * 256 + int b) 0 bs"

definition bits_to_target :: "string \<Rightarrow> py_error + int" where
  "bits_to_target bs =
     (case fromhex (take 2 bs) of
        Inl e \<Rightarrow> Inl e
      | Inr eb \<Rightarrow>
          (case fromhex (drop 2 bs) of
             Inl e \<Rightarrow> Inl e
           | Inr mb \<Rightarrow>
               (let exponent = from_bytes_big eb; mantissa = from_bytes_big mb in
                Inr (if exponent = 0 then mantissa
                     else if exponent \<le> 3 then drop_bit (nat (8 * (3 - exponent))) mantissa
                     else push_bit (nat (8 * (exponent - 3))) mantissa))))"

subsection \<open>Decimal arithmetic of the coin amount\<close>

text \<open>
  A finite \<^verbatim>\<open>decimal.Decimal\<close>: sign, coefficient and exponent, the number
  \<open>\<plusminus> coefficient * 10 ^ exponent\<close>. The amount of an output enters the model as the
  value of \<^verbatim>\<open>Decimal(str(output["value"]))\<close>, a conversion that is exact. The exponent
  limits of the context (\<open>\<plusminus>999999\<close>) are not modelled: the numeral that \<^verbatim>\<open>str\<close> prints
  for a JSON number of the node is far inside them.
\<close>

record decimal =
  negative :: bool
  coefficient :: nat
  exponent :: int

text \<open>The number of digits of the coefficient, \<^verbatim>\<open>len(self._int)\<close>.\<close>

fun num_digits :: "nat \<Rightarrow> nat" where
  "num_digits n = (if n < 10 then 1 else Suc (num_digits (n div 10)))"

declare num_digits.simps [simp del]

text \<open>Dropping the last \<open>k\<close> digits of a coefficient under \<^verbatim>\<open>ROUND_HALF_EVEN\<close>, the
  rounding of the default context.\<close>

definition round_half_even :: "nat \<Rightarrow> nat \<Rightarrow> nat" where
  "round_half_even c k =
     (let q = c div 10 ^ k; r = c mod 10 ^ k in
      if 2 * r > 10 ^ k \<or> (2 * r = 10 ^ k \<and> odd q) then q + 1 else q)"

text \<open>\<^verbatim>\<open>getcontext().prec = 16\<close>\<close>

definition prec :: nat where
  "prec = 16"

text \<open>\<^verbatim>\<open>Decimal._fix\<close>: a coefficient of more than \<open>prec\<close> digits is rounded to \<open>prec\<close>
  digits; when the rounding carries into one digit more, the last digit is dropped.\<close>

definition fix_prec :: "decimal \<Rightarrow> decimal" where
  "fix_prec d =
     (let n = num_digits (coefficient d) in
      if n \<le> prec then d
      else
        (let q = round_half_even (coefficient d) (n - prec) in
         if num_digits q > prec
         then d\<lparr>coefficient := q div 10, exponent := exponent d + int (n - prec) + 1\<rparr>
         else d\<lparr>coefficient := q, exponent := exponent d + int (n - prec)\<rparr>))"

text \<open>\<^verbatim>\<open>Decimal.__mul__\<close>\<close>

definition dec_mul :: "decimal \<Rightarrow> decimal \<Rightarrow> decimal" where
  "dec_mul a b =
     fix_prec \<lparr>negative = (negative a \<noteq> negative b),
               coefficient = coefficient a * coefficient b,
               exponent = exponent a + exponent b\<rparr>"

text \<open>\<^verbatim>\<open>Decimal.to_integral_value()\<close> with the context's rounding.\<close>

definition to_integral_value :: "decimal \<Rightarrow> decimal" where
  "to_integral_value d =
     (if exponent d \<ge> 0 then d
      else d\<lparr>coefficient := round_half_even (coefficient d) (nat (- exponent d)),
              exponent := 0\<rparr>)"

text \<open>\<^verbatim>\<open>int(d)\<close>: truncation towards zero.\<close>

definition int_of_decimal :: "decimal \<Rightarrow> int" where
  "int_of_decimal d =
     (if negative d then - 1 else 1) *
     (if exponent d \<ge> 0 then int (coefficient d) * 10 ^ nat (exponent d)
      else int (coefficient d div 10 ^ nat (- exponent d)))"

text \<open>\<^verbatim>\<open>Decimal("100000000")\<close>\<close>

definition hundred_million :: decimal where
  "hundred_million = \<lparr>negative = False, coefficient = 100000000, exponent = 0\<rparr>"

subsection \<open>Transactions as the node reports them\<close>

record rpc_output =
  btc_value :: decimal
  scriptPubKey_hex :: string

text \<open>An entry of \<^verbatim>\<open>vin\<close>. A coinbase input has the key \<^verbatim>\<open>coinbase\<close> and no
  \<^verbatim>\<open>txid\<close>, \<^verbatim>\<open>vout\<close> or \<^verbatim>\<open>scriptSig\<close>; a key that is absent is \<open>None\<close>.\<close>

record rpc_input =
  coinbase :: "string option"
  in_txid :: "string option"
  in_vout :: "int option"
  scriptSig_hex :: "string option"
  in_sequence :: int
  txinwitness :: "string list option"

record rpc_transaction =
  tx_txid :: string
  tx_version :: int
  tx_hex :: string
  vin :: "rpc_input list"
  vout :: "rpc_output list"
  locktime :: int
  blockhash :: "string option"

record rpc_block = header +
  tx :: "rpc_transaction list"

text \<open>A row of the UTXO snapshot (the fast path), its numbers already read as integers.\<close>

record utxo_row =
  u_txid :: string
  u_vout :: int
  u_value :: int
  u_pk_script :: string
  u_block_height :: int
  median_timestamp :: int
  u_is_coinbase :: bool

record timestamp_data =
  previous_timestamps :: "int list"
  ts_epoch_start_time :: int

subsection \<open>The node and the data providers\<close>

text \<open>
  \<^verbatim>\<open>request_rpc\<close> returns the node's result when a response carrying one arrives within
  its three attempts. Otherwise no result reaches the caller and the run ends with an
  exception whose kind depends on how the call failed: \<^verbatim>\<open>ConnectionError\<close> when the last
  response cannot be read, \<^verbatim>\<open>UnboundLocalError\<close> (the handler reads \<^verbatim>\<open>res\<close>) when no
  attempt got a response at all, and, after a JSON \<^verbatim>\<open>null\<close> result, which is handed back
  as \<^verbatim>\<open>None\<close> without a retry, the \<^verbatim>\<open>TypeError\<close> of the caller's first use of it. The
  model does not tell these kinds apart: a call without a usable result is \<open>None\<close> here
  and ends the computation with \<open>LookupFailed\<close>. In the same way a provider that
  gives no data ends it with \<open>ProviderError\<close>.
\<close>

record env =
  getblockhash :: "int \<Rightarrow> string option"
  getblockheader :: "string \<Rightarrow> header option"
  getblock :: "string \<Rightarrow> rpc_block option"
  getrawtransaction :: "string \<Rightarrow> rpc_transaction option"
  get_timestamp_data :: "int \<Rightarrow> timestamp_data option"
  get_utxo_set :: "int \<Rightarrow> utxo_row list option"
  get_utreexo_data :: "int \<Rightarrow> string option"

definition request_rpc :: "'a option \<Rightarrow> py_error + 'a" where
  "request_rpc r = (case r of None \<Rightarrow> Inl LookupFailed | Some v \<Rightarrow> Inr v)"

definition provider :: "'a option \<Rightarrow> py_error + 'a" where
  "provider r = (case r of None \<Rightarrow> Inl ProviderError | Some v \<Rightarrow> Inr v)"

text \<open>\<^verbatim>\<open>d[key]\<close> on a key that may be absent.\<close>

definition item :: "'a option \<Rightarrow> py_error + 'a" where
  "item r = (case r of None \<Rightarrow> Inl KeyError | Some v \<Rightarrow> Inr v)"

subsection \<open>Initial chain state\<close>

definition fetch_chain_state_fast :: "env \<Rightarrow> int \<Rightarrow> py_error + chain_state" where
  "fetch_chain_state_fast nd block_height =
     and_then (request_rpc (getblockhash nd block_height)) (\<lambda>block_hash.
     and_then (request_rpc (getblockheader nd block_hash)) (\<lambda>head.
     and_then (provider (get_timestamp_data nd block_height)) (\<lambda>data.
       Inr (header.extend head
             (chain_state.fields (previous_timestamps data)
                (if block_height < 2016 then 1231006505 else ts_epoch_start_time data))))))"

text \<open>The loop of \<^verbatim>\<open>fetch_chain_state\<close>: at most \<open>n\<close> more ancestors, each time put in
  front.\<close>

fun backfill :: "env \<Rightarrow> nat \<Rightarrow> header \<Rightarrow> int list \<Rightarrow> py_error + int list" where
  "backfill nd 0 prev_header ts = Inr ts"
| "backfill nd (Suc n) prev_header ts =
     (if height prev_header = 0 then Inr ts
      else
        (case item (previousblockhash prev_header) of
           Inl e \<Rightarrow> Inl e
         | Inr h \<Rightarrow>
             (case request_rpc (getblockheader nd h) of
                Inl e \<Rightarrow> Inl e
              | Inr p \<Rightarrow> backfill nd n p (time p # ts))))"

definition get_epoch_start_time :: "env \<Rightarrow> int \<Rightarrow> py_error + int" where
  "get_epoch_start_time nd block_height =
     and_then (request_rpc (getblockhash nd ((block_height div 2016) * 2016))) (\<lambda>h.
     and_then (request_rpc (getblockheader nd h)) (\<lambda>epoch_start_header.
       Inr (time epoch_start_header)))"

definition fetch_chain_state :: "env \<Rightarrow> int \<Rightarrow> py_error + chain_state" where
  "fetch_chain_state nd block_height =
     and_then (request_rpc (getblockhash nd block_height)) (\<lambda>block_hash.
     and_then (request_rpc (getblockheader nd block_hash)) (\<lambda>head.
     and_then (backfill nd 10 head [time head]) (\<lambda>ts.
     and_then (if block_height < 2016 then Inr 1231006505
               else get_epoch_start_time nd block_height) (\<lambda>est.
       Inr (header.extend head (chain_state.fields ts est))))))"

subsection \<open>Formatted transactions\<close>

record tx_output =
  out_value :: int
  pk_script :: string
  cached :: bool

record outpoint =
  op_txid :: string
  op_vout :: int
  op_data :: tx_output
  op_block_height :: int
  median_time_past :: int
  is_coinbase :: bool

record tx_input =
  script :: string
  sequence :: int
  previous_output :: outpoint
  witness :: "string list"

record transaction =
  t_version :: int
  is_segwit :: bool
  inputs :: "tx_input list"
  outputs :: "tx_output list"
  lock_time :: int

definition format_output :: "rpc_output \<Rightarrow> tx_output" where
  "format_output out =
     \<lparr>out_value = int_of_decimal (to_integral_value (dec_mul (btc_value out) hundred_million)),
      pk_script = ''0x'' @ scriptPubKey_hex out,
      cached = False\<rparr>"

definition format_coinbase_input :: "rpc_input \<Rightarrow> py_error + tx_input" where
  "format_coinbase_input inp =
     and_then (item (coinbase inp)) (\<lambda>cb.
       Inr \<lparr>script = ''0x'' @ cb,
            sequence = in_sequence inp,
            previous_output =
              \<lparr>op_txid = replicate 64 (CHR ''0''),
               op_vout = 4294967295,
               op_data = \<lparr>out_value = 0, pk_script = ''0x'', cached = False\<rparr>,
               op_block_height = 0,
               median_time_past = 0,
               is_coinbase = False\<rparr>,
            witness = [''0x'' @ replicate 64 (CHR ''0'')]\<rparr>)"

definition format_outpoint :: "utxo_row \<Rightarrow> outpoint" where
  "format_outpoint row =
     \<lparr>op_txid = u_txid row,
      op_vout = u_vout row,
      op_data = \<lparr>out_value = u_value row, pk_script = ''0x'' @ u_pk_script row, cached = False\<rparr>,
      op_block_height = u_block_height row,
      median_time_past = median_timestamp row,
      is_coinbase = u_is_coinbase row\<rparr>"

text \<open>The exact path: the spent transaction, the header of its block, the header of the
  block before.\<close>

definition resolve_outpoint :: "env \<Rightarrow> rpc_input \<Rightarrow> py_error + outpoint" where
  "resolve_outpoint nd inp =
     and_then (item (in_txid inp)) (\<lambda>txid.
     and_then (request_rpc (getrawtransaction nd txid)) (\<lambda>spent.
     and_then (item (blockhash spent)) (\<lambda>bh.
     and_then (request_rpc (getblockheader nd bh)) (\<lambda>block.
     and_then (item (previousblockhash block)) (\<lambda>ph.
     and_then (request_rpc (getblockheader nd ph)) (\<lambda>prev_block.
     and_then (item (in_vout inp)) (\<lambda>n.
     and_then (py_index (vout spent) n) (\<lambda>out.
     and_then (py_index (vin spent) 0) (\<lambda>first_in.
       Inr \<lparr>op_txid = txid,
            op_vout = n,
            op_data = format_output out,
            op_block_height = height block,
            median_time_past = mediantime prev_block,
            is_coinbase = (coinbase first_in \<noteq> None)\<rparr>)))))))))"

text \<open>The truth value Python gives to \<^verbatim>\<open>input.get("coinbase")\<close> and to the snapshot
  \<^verbatim>\<open>previous_outputs\<close>: \<^verbatim>\<open>None\<close>, the empty string and the empty dictionary are false.\<close>

definition truthy :: "'a list option \<Rightarrow> bool" where
  "truthy v = (case v of None \<Rightarrow> False | Some xs \<Rightarrow> xs \<noteq> [])"

type_synonym snapshot = "((string \<times> int) \<times> utxo_row) list"

text \<open>\<^verbatim>\<open>previous_outputs[key]\<close>\<close>

definition subscript :: "snapshot option \<Rightarrow> string \<times> int \<Rightarrow> py_error + utxo_row" where
  "subscript previous_outputs k =
     (case previous_outputs of None \<Rightarrow> Inl TypeError | Some d \<Rightarrow> item (map_of d k))"

definition resolve_input :: "env \<Rightarrow> rpc_input \<Rightarrow> snapshot option \<Rightarrow> py_error + tx_input" where
  "resolve_input nd inp previous_outputs =
     (if truthy (coinbase inp) then format_coinbase_input inp
      else
        and_then
          (if truthy previous_outputs
           then
             and_then (item (in_txid inp)) (\<lambda>txid.
             and_then (item (in_vout inp)) (\<lambda>n.
             and_then (subscript previous_outputs (txid, n)) (\<lambda>row.
               Inr (format_outpoint row))))
           else resolve_outpoint nd inp) (\<lambda>prev.
        and_then (item (scriptSig_hex inp)) (\<lambda>sig.
          Inr \<lparr>script = ''0x'' @ sig,
               sequence = in_sequence inp,
               previous_output = prev,
               witness = map (\<lambda>w. ''0x'' @ w)
                           (case txinwitness inp of None \<Rightarrow> [] | Some ws \<Rightarrow> ws)\<rparr>)))"

definition resolve_transaction ::
    "env \<Rightarrow> rpc_transaction \<Rightarrow> snapshot option \<Rightarrow> py_error + transaction" where
  "resolve_transaction nd t previous_outputs =
     and_then (map_err (\<lambda>i. resolve_input nd i previous_outputs) (vin t)) (\<lambda>ins.
       Inr \<lparr>t_version = tx_version t,
            is_segwit = (take 4 (drop 8 (tx_hex t)) = ''0001''),
            inputs = ins,
            outputs = map format_output (vout t),
            lock_time = locktime t\<rparr>)"

text \<open>A dictionary comprehension: a key that comes again keeps its place and takes the
  new value.\<close>

definition dict_of :: "('k \<times> 'v) list \<Rightarrow> ('k \<times> 'v) list" where
  "dict_of kvs = fold (\<lambda>kv d. AList.update (fst kv) (snd kv) d) kvs []"

text \<open>A fetched block: the header keys and, in the full modes, the dictionary
  \<^verbatim>\<open>data\<close> of the resolved transactions by transaction id.\<close>

type_synonym block_txs = "(string \<times> transaction) list"

record block = header +
  data :: "block_txs option"

definition fetch_block :: "env \<Rightarrow> string \<Rightarrow> bool \<Rightarrow> py_error + block" where
  "fetch_block nd block_hash fast =
     and_then (request_rpc (getblock nd block_hash)) (\<lambda>blk.
     and_then (if fast
               then and_then (provider (get_utxo_set nd (height blk))) (\<lambda>rows.
                      Inr (Some (dict_of (map (\<lambda>u. ((u_txid u, u_vout u), u)) rows))))
               else Inr None) (\<lambda>previous_outputs.
     and_then (map_err (\<lambda>t. and_then (resolve_transaction nd t previous_outputs)
                                (\<lambda>r. Inr (tx_txid t, r))) (tx blk)) (\<lambda>kvs.
       Inr (header.extend (header.truncate blk) (block.fields (Some (dict_of kvs)))))))"

definition fetch_block_header :: "env \<Rightarrow> string \<Rightarrow> py_error + block" where
  "fetch_block_header nd block_hash =
     and_then (request_rpc (getblockheader nd block_hash)) (\<lambda>h.
       Inr (header.extend h (block.fields None)))"

subsection \<open>The cache pass over one block\<close>

text \<open>
  The loops of \<^verbatim>\<open>generate_data\<close> write the flag \<^verbatim>\<open>cached\<close> in place, and
  \<^verbatim>\<open>tmp_utxo_set\<close> holds the output dictionaries of the block themselves, not copies: a
  write through \<^verbatim>\<open>tmp_utxo_set[outpoint]\<close> is a write to the output in its transaction's
  list. So the block is the store, an output object is named by where it lives (the
  position of its transaction in the block and its index in that transaction's outputs),
  and \<^verbatim>\<open>tmp_utxo_set\<close> maps an outpoint to such a reference. The dictionaries of the
  inputs' previous outputs are built by \<^verbatim>\<open>format_output\<close> and \<^verbatim>\<open>format_outpoint\<close> for each
  input and are shared with nothing.
\<close>

type_synonym out_ref = "nat \<times> nat"

type_synonym utxo_index = "string \<times> int \<rightharpoonup> out_ref"

definition output_at :: "out_ref \<Rightarrow> block_txs \<Rightarrow> tx_output" where
  "output_at r txs = outputs (snd (txs ! fst r)) ! snd r"

text \<open>\<^verbatim>\<open>tx_input["previous_output"]["data"]["cached"] = True\<close> for input \<open>k\<close> of the
  transaction at position \<open>p\<close>.\<close>

definition set_input_cached :: "nat \<Rightarrow> nat \<Rightarrow> block_txs \<Rightarrow> block_txs" where
  "set_input_cached p k txs =
     (let t = snd (txs ! p);
          i = inputs t ! k;
          prev = previous_output i
      in txs[p := (fst (txs ! p),
                   t\<lparr>inputs := (inputs t)
                       [k := i\<lparr>previous_output :=
                                 prev\<lparr>op_data := (op_data prev)\<lparr>cached := True\<rparr>\<rparr>\<rparr>]\<rparr>)])"

text \<open>\<^verbatim>\<open>o["cached"] = True\<close> for the output object \<open>o\<close> that \<open>r\<close> names.\<close>

definition set_output_cached :: "out_ref \<Rightarrow> block_txs \<Rightarrow> block_txs" where
  "set_output_cached r txs =
     (let p = fst r; idx = snd r; t = snd (txs ! p)
      in txs[p := (fst (txs ! p),
                   t\<lparr>outputs := (outputs t)[idx := (outputs t ! idx)\<lparr>cached := True\<rparr>]\<rparr>)])"

text \<open>First pass, the body of the loop over the inputs of the transaction at \<open>p\<close>.\<close>

definition mark_input ::
    "nat \<Rightarrow> nat \<Rightarrow> block_txs \<times> utxo_index \<Rightarrow> block_txs \<times> utxo_index" where
  "mark_input p k st =
     (let txs = fst st; tmp_utxo_set = snd st;
          prev = previous_output (inputs (snd (txs ! p)) ! k);
          outpoint = (op_txid prev, op_vout prev)
      in case tmp_utxo_set outpoint of
           None \<Rightarrow> st
         | Some r \<Rightarrow> (set_output_cached r (set_input_cached p k txs), tmp_utxo_set))"

text \<open>First pass, the body of the loop over the outputs of the transaction at \<open>p\<close>.\<close>

definition add_output ::
    "nat \<Rightarrow> nat \<Rightarrow> block_txs \<times> utxo_index \<Rightarrow> block_txs \<times> utxo_index" where
  "add_output p idx st =
     (let txs = fst st; tmp_utxo_set = snd st
      in (txs, tmp_utxo_set((fst (txs ! p), int idx) \<mapsto> (p, idx))))"

definition first_pass_tx :: "nat \<Rightarrow> block_txs \<times> utxo_index \<Rightarrow> block_txs \<times> utxo_index" where
  "first_pass_tx p st =
     (let st1 = fold (mark_input p) [0 ..< length (inputs (snd (fst st ! p)))] st
      in fold (add_output p) [0 ..< length (outputs (snd (fst st1 ! p)))] st1)"

definition first_pass :: "block_txs \<Rightarrow> block_txs \<times> utxo_index" where
  "first_pass txs = fold first_pass_tx [0 ..< length txs] (txs, Map.empty)"

text \<open>Second pass, the body of the inner loop.\<close>

definition propagate :: "utxo_index \<Rightarrow> nat \<Rightarrow> nat \<Rightarrow> block_txs \<Rightarrow> block_txs" where
  "propagate tmp_utxo_set p idx txs =
     (case tmp_utxo_set (fst (txs ! p), int idx) of
        None \<Rightarrow> txs
      | Some r \<Rightarrow> if cached (output_at r txs) then set_output_cached (p, idx) txs else txs)"

definition second_pass_tx :: "utxo_index \<Rightarrow> nat \<Rightarrow> block_txs \<Rightarrow> block_txs" where
  "second_pass_tx tmp_utxo_set p txs =
     fold (propagate tmp_utxo_set p) [0 ..< length (outputs (snd (txs ! p)))] txs"

definition second_pass :: "utxo_index \<Rightarrow> block_txs \<Rightarrow> block_txs" where
  "second_pass tmp_utxo_set txs = fold (second_pass_tx tmp_utxo_set) [0 ..< length txs] txs"

definition cache_pass :: "block_txs \<Rightarrow> block_txs" where
  "cache_pass txs = second_pass (snd (first_pass txs)) (fst (first_pass txs))"

text \<open>
  What the claims read off a block: the numbers of inputs and outputs of the transaction
  at a position, the two flags, the outpoint an input spends, and whether the transaction
  at a position creates a given outpoint. The predicates after them are the invariants of
  the two passes: blocks that differ in flags only, an index whose references lie inside
  the block, the state of the first pass after \<open>P\<close> transactions, blocks with the same
  flags, and an index that sends the key of an output to that output.
\<close>

definition n_inputs :: "block_txs \<Rightarrow> nat \<Rightarrow> nat" where
  "n_inputs txs p = length (inputs (snd (txs ! p)))"

definition n_outputs :: "block_txs \<Rightarrow> nat \<Rightarrow> nat" where
  "n_outputs txs p = length (outputs (snd (txs ! p)))"

definition input_cached :: "block_txs \<Rightarrow> nat \<Rightarrow> nat \<Rightarrow> bool" where
  "input_cached txs p k = cached (op_data (previous_output (inputs (snd (txs ! p)) ! k)))"

definition output_cached :: "block_txs \<Rightarrow> nat \<Rightarrow> nat \<Rightarrow> bool" where
  "output_cached txs p i = cached (outputs (snd (txs ! p)) ! i)"

definition spent_key :: "block_txs \<Rightarrow> nat \<Rightarrow> nat \<Rightarrow> string \<times> int" where
  "spent_key txs p k =
     (op_txid (previous_output (inputs (snd (txs ! p)) ! k)),
      op_vout (previous_output (inputs (snd (txs ! p)) ! k)))"

definition creates :: "block_txs \<Rightarrow> nat \<Rightarrow> string \<times> int \<Rightarrow> bool" where
  "creates txs q key =
     (fst key = fst (txs ! q) \<and> 0 \<le> snd key \<and> snd key < int (n_outputs txs q))"

definition same_shape :: "block_txs \<Rightarrow> block_txs \<Rightarrow> bool" where
  "same_shape a b =
     (length a = length b \<and>
      (\<forall>p. fst (a ! p) = fst (b ! p) \<and> n_inputs a p = n_inputs b p
          \<and> n_outputs a p = n_outputs b p \<and> (\<forall>k. spent_key a p k = spent_key b p k)))"

definition refs_ok :: "utxo_index \<Rightarrow> block_txs \<Rightarrow> bool" where
  "refs_ok m t = (\<forall>key q i. m key = Some (q, i) \<longrightarrow> q < length t \<and> i < n_outputs t q)"

definition pass1_inv :: "block_txs \<Rightarrow> nat \<Rightarrow> block_txs \<times> utxo_index \<Rightarrow> bool" where
  "pass1_inv txs P st =
     (same_shape (fst st) txs
      \<and> (\<forall>key q i. (snd st key = Some (q, i)) =
            (q < P \<and> key = (fst (txs ! q), int i) \<and> i < n_outputs txs q))
      \<and> (\<forall>p k. input_cached (fst st) p k =
            (input_cached txs p k
             \<or> (p < P \<and> k < n_inputs txs p \<and> (\<exists>q<p. creates txs q (spent_key txs p k)))))
      \<and> (\<forall>q i. output_cached (fst st) q i =
            (output_cached txs q i
             \<or> (\<exists>p<P. \<exists>k<n_inputs txs p. q < p \<and> i < n_outputs txs q
                   \<and> spent_key txs p k = (fst (txs ! q), int i)))))"

definition obs_eq :: "block_txs \<Rightarrow> block_txs \<Rightarrow> bool" where
  "obs_eq a b =
     (same_shape a b \<and> (\<forall>p k. input_cached a p k = input_cached b p k)
      \<and> (\<forall>q i. output_cached a q i = output_cached b q i))"

definition self_refs :: "utxo_index \<Rightarrow> block_txs \<Rightarrow> bool" where
  "self_refs m t =
     (\<forall>q i r. q < length t \<longrightarrow> m (fst (t ! q), int i) = Some r \<longrightarrow> r = (q, i))"

subsection \<open>The fixture\<close>

text \<open>\<^verbatim>\<open>str\<close> of an integer.\<close>

fun str_nat :: "nat \<Rightarrow> string" where
  "str_nat n =
     (if n < 10 then [char_of (48 + n)] else str_nat (n div 10) @ [char_of (48 + n mod 10)])"

declare str_nat.simps [simp del]

definition str_int :: "int \<Rightarrow> string" where
  "str_int i = (if i < 0 then CHR ''-'' # str_nat (nat (- i)) else str_nat (nat i))"

record fmt_chain_state =
  block_height :: int
  total_work :: string
  best_block_hash :: string
  current_target :: string
  fmt_epoch_start_time :: int
  fmt_prev_timestamps :: "int list"

record fmt_header =
  fmt_version :: int
  fmt_time :: int
  fmt_bits :: int
  fmt_nonce :: int

text \<open>The two variants of a block's data, \<^verbatim>\<open>variant_id\<close> 0 and 1.\<close>

datatype block_variant =
    Merkle_root string
  | Transactions "transaction list"

record fmt_block =
  fmt_block_header :: fmt_header
  fmt_block_data :: block_variant

record fixture =
  fx_chain_state :: fmt_chain_state
  fx_blocks :: "fmt_block list"
  fx_expected :: fmt_chain_state
  fx_utreexo :: "string option"

definition format_chain_state :: "chain_state \<Rightarrow> py_error + fmt_chain_state" where
  "format_chain_state head =
     and_then (fromhex (chainwork head)) (\<lambda>work.
     and_then (bits_to_target (bits head)) (\<lambda>target.
       Inr \<lparr>block_height = height head,
            total_work = str_int (from_bytes_big work),
            best_block_hash = hash head,
            current_target = str_int target,
            fmt_epoch_start_time = epoch_start_time head,
            fmt_prev_timestamps = prev_timestamps head\<rparr>))"

definition format_header :: "'a header_scheme \<Rightarrow> py_error + fmt_header" where
  "format_header h =
     and_then (fromhex (bits h)) (\<lambda>b.
       Inr \<lparr>fmt_version = version h,
            fmt_time = time h,
            fmt_bits = from_bytes_big b,
            fmt_nonce = nonce h\<rparr>)"

definition format_block :: "block \<Rightarrow> py_error + fmt_block" where
  "format_block h =
     and_then (format_header h) (\<lambda>fh.
       Inr \<lparr>fmt_block_header = fh, fmt_block_data = Merkle_root (merkleroot h)\<rparr>)"

definition format_block_with_transactions :: "block \<Rightarrow> py_error + fmt_block" where
  "format_block_with_transactions blk =
     and_then (format_header blk) (\<lambda>fh.
     and_then (item (data blk)) (\<lambda>txs.
       Inr \<lparr>fmt_block_header = fh, fmt_block_data = Transactions (map snd txs)\<rparr>))"

text \<open>The body of the loop of \<^verbatim>\<open>generate_data\<close> up to the cache pass.\<close>

definition fetch_and_mark :: "env \<Rightarrow> string \<Rightarrow> bool \<Rightarrow> string \<Rightarrow> py_error + block" where
  "fetch_and_mark nd mode fast next_block_hash =
     (if mode = ''light'' then fetch_block_header nd next_block_hash
      else if mode = ''full'' \<or> mode = ''utreexo''
      then and_then (fetch_block nd next_block_hash fast) (\<lambda>blk.
           and_then (item (data blk)) (\<lambda>txs.
             Inr (blk\<lparr>data := Some (cache_pass txs)\<rparr>)))
      else Inl NotImplementedError)"

text \<open>The loop over \<^verbatim>\<open>range(num_blocks)\<close>, \<open>n\<close> rounds to go.\<close>

fun fetch_blocks ::
    "env \<Rightarrow> string \<Rightarrow> bool \<Rightarrow> nat \<Rightarrow> string \<Rightarrow> chain_state \<Rightarrow> block list
      \<Rightarrow> py_error + chain_state \<times> block list" where
  "fetch_blocks nd mode fast 0 next_block_hash st blocks = Inr (st, blocks)"
| "fetch_blocks nd mode fast (Suc n) next_block_hash st blocks =
     (case fetch_and_mark nd mode fast next_block_hash of
        Inl e \<Rightarrow> Inl e
      | Inr blk \<Rightarrow>
          (case item (nextblockhash blk) of
             Inl e \<Rightarrow> Inl e
           | Inr h \<Rightarrow> fetch_blocks nd mode fast n h (next_chain_state st blk) (blocks @ [blk])))"

definition generate_data :: "env \<Rightarrow> string \<Rightarrow> int \<Rightarrow> int \<Rightarrow> bool \<Rightarrow> py_error + fixture" where
  "generate_data nd mode initial_height num_blocks fast =
     and_then (if fast then fetch_chain_state_fast nd initial_height
               else fetch_chain_state nd initial_height) (\<lambda>initial_chain_state.
     and_then (item (nextblockhash initial_chain_state)) (\<lambda>next_block_hash.
     and_then (fetch_blocks nd mode fast (nat num_blocks) next_block_hash
                 initial_chain_state []) (\<lambda>r.
     and_then (format_chain_state initial_chain_state) (\<lambda>fmt_initial.
     and_then (map_err (if mode = ''light'' then format_block
                        else format_block_with_transactions) (snd r)) (\<lambda>fmt_blocks.
     and_then (format_chain_state (fst r)) (\<lambda>fmt_expected.
       if mode = ''utreexo''
       then
         (if length (snd r) = 1
          then and_then (provider (get_utreexo_data nd (height (snd r ! 0)))) (\<lambda>u.
                 Inr \<lparr>fx_chain_state = fmt_initial, fx_blocks = fmt_blocks,
                      fx_expected = fmt_expected, fx_utreexo = Some u\<rparr>)
          else Inl AssertionError)
       else Inr \<lparr>fx_chain_state = fmt_initial, fx_blocks = fmt_blocks,
                 fx_expected = fmt_expected, fx_utreexo = None\<rparr>))))))"

subsection \<open>Concrete inputs\<close>

text \<open>A header at a given height and time, and a chain state over it.\<close>

definition example_header :: "int \<Rightarrow> int \<Rightarrow> header" where
  "example_header h t =
     \<lparr>hash = ''aa'', height = h, version = 1, time = t, bits = ''1d00ffff'', nonce = 7,
      chainwork = ''0100010001'', mediantime = t, merkleroot = ''bb'',
      previousblockhash = Some ''cc'', nextblockhash = Some ''dd''\<rparr>"

definition example_state :: "int \<Rightarrow> int list \<Rightarrow> int \<Rightarrow> chain_state" where
  "example_state h ts est =
     header.extend (example_header h (last ts)) (chain_state.fields ts est)"

text \<open>A node that serves four linked blocks \<^verbatim>\<open>b0\<close> to \<^verbatim>\<open>b3\<close>. Block \<^verbatim>\<open>b2\<close> holds its
  coinbase transaction \<^verbatim>\<open>c2\<close>, a transaction \<^verbatim>\<open>a\<close> that spends the coinbase of \<^verbatim>\<open>b1\<close>,
  and a transaction \<^verbatim>\<open>b\<close> that spends output 0 of \<^verbatim>\<open>a\<close>.\<close>

definition chain_header ::
    "string \<Rightarrow> int \<Rightarrow> int \<Rightarrow> int \<Rightarrow> string option \<Rightarrow> string option \<Rightarrow> header" where
  "chain_header name h t mt prev nxt =
     \<lparr>hash = name, height = h, version = 1, time = t, bits = ''1d00ffff'', nonce = 7,
      chainwork = ''0100010001'', mediantime = mt, merkleroot = ''ee'',
      previousblockhash = prev, nextblockhash = nxt\<rparr>"

definition example_headers :: "(string \<times> header) list" where
  "example_headers =
     [(''b0'', chain_header ''b0'' 0 100 100 None (Some ''b1'')),
      (''b1'', chain_header ''b1'' 1 200 150 (Some ''b0'') (Some ''b2'')),
      (''b2'', chain_header ''b2'' 2 300 200 (Some ''b1'') (Some ''b3'')),
      (''b3'', chain_header ''b3'' 3 400 250 (Some ''b2'') (Some ''b4''))]"

definition coinbase_in :: "string \<Rightarrow> rpc_input" where
  "coinbase_in cb =
     \<lparr>coinbase = Some cb, in_txid = None, in_vout = None, scriptSig_hex = None,
      in_sequence = 4294967295, txinwitness = None\<rparr>"

definition spend_in :: "string \<Rightarrow> int \<Rightarrow> rpc_input" where
  "spend_in t n =
     \<lparr>coinbase = None, in_txid = Some t, in_vout = Some n, scriptSig_hex = Some ''47'',
      in_sequence = 4294967295, txinwitness = None\<rparr>"

definition pay :: "nat \<Rightarrow> int \<Rightarrow> rpc_output" where
  "pay c e =
     \<lparr>btc_value = \<lparr>negative = False, coefficient = c, exponent = e\<rparr>,
      scriptPubKey_hex = ''51''\<rparr>"

definition example_tx ::
    "string \<Rightarrow> rpc_input list \<Rightarrow> rpc_output list \<Rightarrow> string \<Rightarrow> rpc_transaction" where
  "example_tx name ins outs bh =
     \<lparr>tx_txid = name, tx_version = 1, tx_hex = ''0100000001'', vin = ins, vout = outs,
      locktime = 0, blockhash = Some bh\<rparr>"

definition example_txs :: "(string \<times> rpc_transaction) list" where
  "example_txs =
     [(''c1'', example_tx ''c1'' [coinbase_in ''04ffff''] [pay 500 (- 1)] ''b1''),
      (''c2'', example_tx ''c2'' [coinbase_in ''04eeee''] [pay 500 (- 1)] ''b2''),
      (''a'', example_tx ''a'' [spend_in ''c1'' 0] [pay 200 (- 1), pay 2999 (- 2)] ''b2''),
      (''b'', example_tx ''b'' [spend_in ''a'' 0] [pay 1999999999 (- 8)] ''b2''),
      (''c3'', example_tx ''c3'' [coinbase_in ''04dddd''] [pay 500 (- 1)] ''b3'')]"

definition example_block :: "string \<Rightarrow> string list \<Rightarrow> rpc_block option" where
  "example_block name ids =
     (case map_of example_headers name of
        None \<Rightarrow> None
      | Some h \<Rightarrow>
          Some (header.extend h (rpc_block.fields (map (\<lambda>i. the (map_of example_txs i)) ids))))"

definition example_node :: "(int \<Rightarrow> utxo_row list option) \<Rightarrow> env" where
  "example_node utxos =
     \<lparr>getblockhash = map_of [(0, ''b0''), (1, ''b1''), (2, ''b2''), (3, ''b3'')],
      getblockheader = map_of example_headers,
      getblock = (\<lambda>h. if h = ''b2'' then example_block ''b2'' [''c2'', ''a'', ''b'']
                       else if h = ''b3'' then example_block ''b3'' [''c3''] else None),
      getrawtransaction = map_of example_txs,
      get_timestamp_data = (\<lambda>h. None),
      get_utxo_set = utxos,
      get_utreexo_data = (\<lambda>h. if h = 2 then Some ''acc2'' else None)\<rparr>"

text \<open>A block of three resolved transactions: \<^verbatim>\<open>b\<close> spends output 0 of \<^verbatim>\<open>a\<close>, and every flag
  is still \<open>False\<close>.\<close>

definition mk_out :: "int \<Rightarrow> tx_output" where
  "mk_out v = \<lparr>out_value = v, pk_script = ''0x51'', cached = False\<rparr>"

definition mk_in :: "string \<Rightarrow> int \<Rightarrow> tx_input" where
  "mk_in t n =
     \<lparr>script = ''0x47'', sequence = 4294967295,
      previous_output =
        \<lparr>op_txid = t, op_vout = n, op_data = mk_out 7, op_block_height = 1,
         median_time_past = 100, is_coinbase = False\<rparr>,
      witness = []\<rparr>"

definition mk_tx :: "tx_input list \<Rightarrow> tx_output list \<Rightarrow> transaction" where
  "mk_tx ins outs =
     \<lparr>t_version = 1, is_segwit = False, inputs = ins, outputs = outs, lock_time = 0\<rparr>"

definition example_block_txs :: block_txs where
  "example_block_txs =
     [(''c'', mk_tx [mk_in (replicate 64 (CHR ''0'')) 4294967295] [mk_out 50]),
      (''a'', mk_tx [mk_in ''x'' 1] [mk_out 20, mk_out 30]),
      (''b'', mk_tx [mk_in ''a'' 0, mk_in ''y'' 0] [mk_out 19])]"

definition example_row :: utxo_row where
  "example_row =
     \<lparr>u_txid = ''zz'', u_vout = 0, u_value = 5000000000, u_pk_script = ''51'',
      u_block_height = 1, median_timestamp = 100, u_is_coinbase = True\<rparr>"

text \<open>What is asked of the node for the window of a chain state: each of the up to \<open>n\<close>
  ancestors of a header is served, at a height one less than its child's.\<close>

fun ancestors_linked :: "env \<Rightarrow> nat \<Rightarrow> header \<Rightarrow> bool" where
  "ancestors_linked nd 0 h = True"
| "ancestors_linked nd (Suc n) h =
     (height h = 0 \<or>
      (case previousblockhash h of
         None \<Rightarrow> False
       | Some ph \<Rightarrow>
           (case getblockheader nd ph of
              None \<Rightarrow> False
            | Some p \<Rightarrow> height p = height h - 1 \<and> ancestors_linked nd n p)))"

text \<open>The invariant of the window: \<^verbatim>\<open>len(prev_timestamps) == min(block_height + 1, 11)\<close>.\<close>

definition window_invariant :: "chain_state \<Rightarrow> bool" where
  "window_invariant s = (int (length (prev_timestamps s)) = min (height s + 1) 11)"

section \<open>Properties\<close>

subsection \<open>Chain state transition\<close>

lemma length_slice_last: "0 < n \<Longrightarrow> length (slice_last n xs) = min (length xs) n"
  by (simp add: slice_last_def)

lemma slice_last_rev_take: "0 < n \<Longrightarrow> slice_last n xs = rev (take n (rev xs))"
  by (simp add: slice_last_def take_rev)

lemma slice_last_snoc:
  "slice_last (Suc n) (xs @ [x]) = (if n = 0 then [x] else slice_last n xs @ [x])"
  by (simp add: slice_last_def Suc_diff_le)

lemma slice_last_11_snoc: "slice_last 11 (xs @ [x]) = slice_last 10 xs @ [x]"
  using slice_last_snoc [of 10 xs x] by simp

lemma next_chain_state_prev_timestamps:
  "prev_timestamps (next_chain_state s b) = slice_last 11 (prev_timestamps s @ [time b])"
  by (simp add: next_chain_state_def header.extend_def header.truncate_def
      chain_state.fields_def)

lemma next_chain_state_epoch_start_time:
  "epoch_start_time (next_chain_state s b) =
     (if height b mod 2016 = 0 then time b else epoch_start_time s)"
  by (simp add: next_chain_state_def header.extend_def header.truncate_def
      chain_state.fields_def)

lemma next_chain_state_height: "height (next_chain_state s b) = height b"
  by (simp add: next_chain_state_def header.extend_def header.truncate_def
      chain_state.fields_def)

lemma example_state_simps:
  "prev_timestamps (example_state h ts est) = ts"
  "epoch_start_time (example_state h ts est) = est"
  "height (example_state h ts est) = h"
  "height (example_header h t) = h"
  "time (example_header h t) = t"
  by (simp_all add: example_state_def example_header_def header.extend_def
      chain_state.fields_def)

text \<open>
  C2. The timestamp window after a transition is the old window with the new block's time
  appended, cut to its last 11 entries: it has \<open>min (n + 1) 11\<close> entries, its last entry
  is the block's time, and what stands before the last entry is the last 10 entries of
  the old window (Python's \<^verbatim>\<open>prev_timestamps[-10:]\<close>). Once the old window holds 11
  entries, exactly its oldest entry is dropped.
\<close>

theorem next_chain_state_window:
  "prev_timestamps (next_chain_state s b) =
     rev (take 11 (rev (prev_timestamps s @ [time b])))
   \<and> length (prev_timestamps (next_chain_state s b)) = min (length (prev_timestamps s) + 1) 11
   \<and> last (prev_timestamps (next_chain_state s b)) = time b
   \<and> butlast (prev_timestamps (next_chain_state s b)) = slice_last 10 (prev_timestamps s)
   \<and> (length (prev_timestamps s) = 11 \<longrightarrow>
        prev_timestamps (next_chain_state s b) = tl (prev_timestamps s) @ [time b])"
proof -
  let ?old = "prev_timestamps s"
  let ?new = "prev_timestamps (next_chain_state s b)"
  have new: "?new = slice_last 10 ?old @ [time b]"
    by (simp only: next_chain_state_prev_timestamps slice_last_11_snoc)
  have a: "?new = rev (take 11 (rev (?old @ [time b])))"
    by (simp only: next_chain_state_prev_timestamps) (rule slice_last_rev_take, simp)
  have b: "length ?new = min (length ?old + 1) 11"
    by (simp add: new length_slice_last)
  have c: "last ?new = time b"
    by (simp add: new)
  have d: "butlast ?new = slice_last 10 ?old"
    by (simp add: new)
  have e: "length ?old = 11 \<longrightarrow> ?new = tl ?old @ [time b]"
    by (simp add: new slice_last_def drop_Suc)
  from a b c d e show ?thesis by blast
qed

theorem next_chain_state_window_witness:
  "length [1, 2, 3, 4, 5, 6, 7, 8, 9, 10, 11 :: int] = 11
   \<and> prev_timestamps
        (next_chain_state (example_state 20 [1, 2, 3, 4, 5, 6, 7, 8, 9, 10, 11] 1)
           (example_header 21 12))
      = [2, 3, 4, 5, 6, 7, 8, 9, 10, 11, 12]"
  using next_chain_state_window
    [of "example_state 20 [1, 2, 3, 4, 5, 6, 7, 8, 9, 10, 11] 1" "example_header 21 12"]
  by (simp add: example_state_simps)

text \<open>
  C4. A transition to a block whose height is divisible by 2016 sets the epoch start time
  to that block's time; a transition to a block of any other height leaves the epoch start
  time of the previous state.
\<close>

theorem next_chain_state_epoch:
  "(height b mod 2016 = 0 \<longrightarrow> epoch_start_time (next_chain_state s b) = time b)
   \<and> (height b mod 2016 \<noteq> 0 \<longrightarrow>
        epoch_start_time (next_chain_state s b) = epoch_start_time s)"
  by (simp add: next_chain_state_epoch_start_time)

theorem next_chain_state_epoch_witness:
  "epoch_start_time
     (next_chain_state (example_state 2015 [5] 1231006505) (example_header 2016 1233063531))
     = 1233063531
   \<and> epoch_start_time
       (next_chain_state (example_state 2016 [5] 1233063531) (example_header 2017 1233064000))
     = 1233063531"
  using next_chain_state_epoch
      [of "example_header 2016 1233063531" "example_state 2015 [5] 1231006505"]
    next_chain_state_epoch
      [of "example_header 2017 1233064000" "example_state 2016 [5] 1233063531"]
  by (simp add: example_state_simps)

subsection \<open>Compact target\<close>

text \<open>
  C3. When the first two characters of the bits string are the byte \<open>e\<close> and the rest are
  the three bytes \<open>a\<close>, \<open>b\<close>, \<open>c\<close>, the mantissa is \<open>65536 a + 256 b + c\<close> (big-endian) and the
  target is the mantissa itself for \<open>e = 0\<close>, the mantissa divided by \<open>2 ^ (8 (3 - e))\<close>
  (a right shift) for \<open>0 < e \<le> 3\<close>, and the mantissa times \<open>2 ^ (8 (e - 3))\<close> (a left shift)
  otherwise. The bits \<^verbatim>\<open>1d00ffff\<close> decode to \<open>0xffff * 2 ^ (8 * (0x1d - 3))\<close> and the bits
  \<^verbatim>\<open>03123456\<close> to \<open>0x123456\<close>.
\<close>

theorem bits_to_target_decode:
  assumes "fromhex (take 2 bs) = Inr [e]" and "fromhex (drop 2 bs) = Inr [a, b, c]"
  shows "bits_to_target bs =
      Inr (if e = 0 then int (65536 * a + 256 * b + c)
           else if e \<le> 3 then int (65536 * a + 256 * b + c) div 2 ^ (8 * (3 - e))
           else int (65536 * a + 256 * b + c) * 2 ^ (8 * (e - 3)))
   \<and> bits_to_target ''1d00ffff'' = Inr (0xffff * 2 ^ (8 * (0x1d - 3)))
   \<and> bits_to_target ''03123456'' = Inr 0x123456"
proof -
  have m: "from_bytes_big [a, b, c] = int (65536 * a + 256 * b + c)"
    by (simp add: from_bytes_big_def)
  have x: "from_bytes_big [e] = int e"
    by (simp add: from_bytes_big_def)
  have n1: "nat (8 * (3 - int e)) = 8 * (3 - e)" by simp
  have n2: "nat (8 * (int e - 3)) = 8 * (e - 3)" by simp
  have g: "bits_to_target bs =
      Inr (if e = 0 then int (65536 * a + 256 * b + c)
           else if e \<le> 3 then int (65536 * a + 256 * b + c) div 2 ^ (8 * (3 - e))
           else int (65536 * a + 256 * b + c) * 2 ^ (8 * (e - 3)))"
    unfolding bits_to_target_def assms sum.case Let_def m x n1 n2
    by (simp add: push_bit_eq_mult drop_bit_eq_div)
  have p1: "bits_to_target ''1d00ffff'' = Inr (0xffff * 2 ^ (8 * (0x1d - 3)))"
    by (simp add: bits_to_target_def hex_digit_def is_space_def from_bytes_big_def
        push_bit_eq_mult)
  have p2: "bits_to_target ''03123456'' = Inr 0x123456"
    by (simp add: bits_to_target_def hex_digit_def is_space_def from_bytes_big_def)
  from g p1 p2 show ?thesis by simp
qed

theorem bits_to_target_decode_witness:
  "fromhex (take 2 ''02123456'') = Inr [2]
   \<and> fromhex (drop 2 ''02123456'') = Inr [18, 52, 86]
   \<and> bits_to_target ''02123456'' = Inr 0x1234
   \<and> bits_to_target ''00123456'' = Inr 0x123456
   \<and> bits_to_target ''04123456'' = Inr 0x12345600"
proof -
  have h2: "fromhex (take 2 ''02123456'') = Inr [2]"
    by (simp add: hex_digit_def is_space_def)
  have h0: "fromhex (take 2 ''00123456'') = Inr [0]"
    by (simp add: hex_digit_def is_space_def)
  have h4: "fromhex (take 2 ''04123456'') = Inr [4]"
    by (simp add: hex_digit_def is_space_def)
  have m2: "fromhex (drop 2 ''02123456'') = Inr [18, 52, 86]"
    by (simp add: hex_digit_def is_space_def)
  have m0: "fromhex (drop 2 ''00123456'') = Inr [18, 52, 86]"
    by (simp add: hex_digit_def is_space_def)
  have m4: "fromhex (drop 2 ''04123456'') = Inr [18, 52, 86]"
    by (simp add: hex_digit_def is_space_def)
  show ?thesis
    using bits_to_target_decode [OF h2 m2] bits_to_target_decode [OF h0 m0]
      bits_to_target_decode [OF h4 m4] h2 m2
    by simp
qed

subsection \<open>Calls that may raise\<close>

lemma and_then_Inr_iff:
  "and_then r f = Inr y \<longleftrightarrow> (\<exists>v. r = Inr v \<and> f v = Inr y)"
  by (cases r) (simp_all add: and_then_def)

lemma and_then_simps [simp]:
  "and_then (Inl e) f = Inl e"
  "and_then (Inr v) f = f v"
  by (simp_all add: and_then_def)

lemma item_simps [simp]:
  "item None = Inl KeyError"
  "item (Some v) = Inr v"
  by (simp_all add: item_def)

lemma item_Inr_iff: "item r = Inr v \<longleftrightarrow> r = Some v"
  by (cases r) simp_all

lemma request_rpc_simps [simp]:
  "request_rpc None = Inl LookupFailed"
  "request_rpc (Some v) = Inr v"
  by (simp_all add: request_rpc_def)

lemma request_rpc_Inr_iff: "request_rpc r = Inr v \<longleftrightarrow> r = Some v"
  by (cases r) simp_all

lemma truthy_simps [simp]:
  "truthy None = False"
  "truthy (Some xs) = (xs \<noteq> [])"
  by (simp_all add: truthy_def)

subsection \<open>The window of the chain state\<close>

lemma backfill_linked:
  "0 \<le> height h \<Longrightarrow> ancestors_linked nd n h \<Longrightarrow>
   \<exists>ts'. backfill nd n h ts = Inr ts'
     \<and> int (length ts') = int (length ts) + min (height h) (int n)
     \<and> (\<exists>pre. ts' = pre @ ts)"
proof (induction n arbitrary: h ts)
  case 0
  then show ?case by simp
next
  case (Suc n)
  show ?case
  proof (cases "height h = 0")
    case True
    then show ?thesis by simp
  next
    case False
    with Suc.prems obtain ph p where ph: "previousblockhash h = Some ph"
      and p: "getblockheader nd ph = Some p" and hp: "height p = height h - 1"
      and lp: "ancestors_linked nd n p"
      by (auto split: option.splits)
    from False Suc.prems hp have "0 \<le> height p" by simp
    from Suc.IH [OF this lp, of "time p # ts"] obtain ts' pre where
      r: "backfill nd n p (time p # ts) = Inr ts'"
      and l: "int (length ts') = int (length (time p # ts)) + min (height p) (int n)"
      and e: "ts' = pre @ time p # ts" by blast
    have "backfill nd (Suc n) h ts = Inr ts'"
      using False ph p r by (simp add: item_def request_rpc_def)
    moreover have "int (length ts') = int (length ts) + min (height h) (int (Suc n))"
      using l hp by simp
    moreover have "ts' = (pre @ [time p]) @ ts" using e by simp
    ultimately show ?thesis by blast
  qed
qed

lemma truncate_extend_state:
  "header.truncate (header.extend (h :: header) (chain_state.fields ts est)) = h"
  by (cases h) (simp add: header.extend_def header.truncate_def chain_state.fields_def)

lemma extend_state_simps:
  "prev_timestamps (header.extend (h :: header) (chain_state.fields ts est)) = ts"
  "epoch_start_time (header.extend (h :: header) (chain_state.fields ts est)) = est"
  "height (header.extend (h :: header) (chain_state.fields ts est)) = height h"
  "time (header.extend (h :: header) (chain_state.fields ts est)) = time h"
  "nextblockhash (header.extend (h :: header) (chain_state.fields ts est)) = nextblockhash h"
  by (simp_all add: header.extend_def chain_state.fields_def)

lemma fetch_chain_state_Inr:
  assumes "fetch_chain_state nd bh = Inr s"
  shows "backfill nd 10 (header.truncate s) [time s] = Inr (prev_timestamps s)"
proof -
  from assms obtain head ts est where
    s: "s = header.extend head (chain_state.fields ts est)"
    and b: "backfill nd 10 head [time head] = Inr ts"
    by (auto simp: fetch_chain_state_def and_then_Inr_iff)
  show ?thesis
    by (simp only: s truncate_extend_state extend_state_simps b)
qed

lemma window_invariant_next:
  assumes "window_invariant s" and "height b = height s + 1"
  shows "window_invariant (next_chain_state s b)"
  using assms
  by (simp add: window_invariant_def next_chain_state_prev_timestamps next_chain_state_height
      length_slice_last)

text \<open>
  C5. The window invariant \<open>len(prev_timestamps) = min (block_height + 1) 11\<close>. A state
  that \<^verbatim>\<open>fetch_chain_state\<close> returns satisfies it, and ends with the state's own block
  time, when the node serves the up to 10 ancestors of the state's block as a linked
  chain (each parent one lower than its child, down to height 0). A transition to the
  block of the next height preserves it.
\<close>

theorem window_invariant_holds:
  "(fetch_chain_state nd bh = Inr s0 \<and> 0 \<le> height s0
      \<and> ancestors_linked nd 10 (header.truncate s0)
    \<longrightarrow> window_invariant s0 \<and> last (prev_timestamps s0) = time s0)
   \<and> (window_invariant s \<and> height b = height s + 1
    \<longrightarrow> window_invariant (next_chain_state s b))"
proof -
  have "window_invariant s0 \<and> last (prev_timestamps s0) = time s0"
    if f: "fetch_chain_state nd bh = Inr s0" and h: "0 \<le> height s0"
      and l: "ancestors_linked nd 10 (header.truncate s0)"
  proof -
    note b = fetch_chain_state_Inr [OF f]
    have h': "0 \<le> height (header.truncate s0)" using h by (simp add: header.truncate_def)
    from backfill_linked [OF h' l, of "[time s0]"] b
    have "int (length (prev_timestamps s0)) = 1 + min (height s0) 10"
      and "\<exists>pre. prev_timestamps s0 = pre @ [time s0]"
      by (auto simp: header.truncate_def)
    then show ?thesis by (auto simp: window_invariant_def)
  qed
  with window_invariant_next show ?thesis by blast
qed

theorem window_invariant_holds_witness:
  "fetch_chain_state (example_node (\<lambda>h. None)) 3 =
     Inr (header.extend (chain_header ''b3'' 3 400 250 (Some ''b2'') (Some ''b4''))
            (chain_state.fields [100, 200, 300, 400] 1231006505))
   \<and> ancestors_linked (example_node (\<lambda>h. None)) 10
        (chain_header ''b3'' 3 400 250 (Some ''b2'') (Some ''b4''))
   \<and> window_invariant
        (header.extend (chain_header ''b3'' 3 400 250 (Some ''b2'') (Some ''b4''))
           (chain_state.fields [100, 200, 300, 400] 1231006505))
   \<and> window_invariant
        (next_chain_state
           (header.extend (chain_header ''b3'' 3 400 250 (Some ''b2'') (Some ''b4''))
              (chain_state.fields [100, 200, 300, 400] 1231006505))
           (example_header 4 500))"
proof -
  let ?h = "chain_header ''b3'' 3 400 250 (Some ''b2'') (Some ''b4'')"
  let ?s = "header.extend ?h (chain_state.fields [100, 200, 300, 400] 1231006505)"
  have f: "fetch_chain_state (example_node (\<lambda>h. None)) 3 = Inr ?s"
    by (simp add: fetch_chain_state_def example_node_def example_headers_def
        chain_header_def eval_nat_numeral)
  have l: "ancestors_linked (example_node (\<lambda>h. None)) 10 ?h"
    by (simp add: example_node_def example_headers_def chain_header_def eval_nat_numeral)
  have h: "0 \<le> height ?s"
    by (simp add: extend_state_simps chain_header_def)
  have n: "height (example_header 4 500) = height ?s + 1"
    by (simp add: extend_state_simps chain_header_def example_state_simps)
  from window_invariant_holds [of "example_node (\<lambda>h. None)" 3 ?s ?s "example_header 4 500"]
    f l h n
  show ?thesis by (simp add: truncate_extend_state)
qed

subsection \<open>Resolution of inputs\<close>

text \<open>
  C7. A coinbase input is resolved without any lookup, whatever its coinbase script,
  whatever the node and whatever the snapshot: the result is returned for every
  environment and every \<open>previous_outputs\<close>, and its previous output has a transaction id
  of 64 zero characters, index \<open>0xFFFFFFFF\<close>, a zero-value output with the empty script
  \<^verbatim>\<open>0x\<close> and \<open>cached = False\<close>, block height 0, median time past 0 and
  \<open>is_coinbase = False\<close>. The coinbase script ranges over what a node reports, a script
  of 2 to 100 bytes by consensus: it is any string but the empty one.
\<close>

theorem coinbase_input_null_outpoint:
  assumes "coinbase inp = Some cb" and "cb \<noteq> []"
  shows "\<exists>r. resolve_input nd inp previous_outputs = Inr r
     \<and> previous_output r =
         \<lparr>op_txid = replicate 64 (CHR ''0''), op_vout = 0xFFFFFFFF,
          op_data = \<lparr>out_value = 0, pk_script = ''0x'', cached = False\<rparr>,
          op_block_height = 0, median_time_past = 0, is_coinbase = False\<rparr>
     \<and> length (op_txid (previous_output r)) = 64
     \<and> set (op_txid (previous_output r)) = {CHR ''0''}"
  using assms by (simp add: resolve_input_def format_coinbase_input_def)

theorem coinbase_input_null_outpoint_witness:
  "coinbase (coinbase_in ''04ffff'') = Some ''04ffff''
   \<and> (\<exists>r. resolve_input (example_node (\<lambda>h. None)) (coinbase_in ''04ffff'') None = Inr r
          \<and> op_vout (previous_output r) = 4294967295
          \<and> length (op_txid (previous_output r)) = 64)
   \<and> (\<exists>r. resolve_input (example_node (\<lambda>h. None)) (coinbase_in ''04ffff'')
             (Some [((''zz'', 0), example_row)]) = Inr r
          \<and> op_vout (previous_output r) = 4294967295
          \<and> set (op_txid (previous_output r)) = {CHR ''0''})"
proof -
  have c: "coinbase (coinbase_in ''04ffff'') = Some ''04ffff''"
    by (simp add: coinbase_in_def)
  have n: "''04ffff'' \<noteq> []"
    by simp
  from coinbase_input_null_outpoint [OF c n, of "example_node (\<lambda>h. None)" None]
  obtain r1 where
    r1: "resolve_input (example_node (\<lambda>h. None)) (coinbase_in ''04ffff'') None = Inr r1"
    and p1: "previous_output r1 =
         \<lparr>op_txid = replicate 64 (CHR ''0''), op_vout = 0xFFFFFFFF,
          op_data = \<lparr>out_value = 0, pk_script = ''0x'', cached = False\<rparr>,
          op_block_height = 0, median_time_past = 0, is_coinbase = False\<rparr>"
    and l1: "length (op_txid (previous_output r1)) = 64"
    by blast
  from coinbase_input_null_outpoint [OF c n, of "example_node (\<lambda>h. None)"
      "Some [((''zz'', 0), example_row)]"]
  obtain r2 where
    r2: "resolve_input (example_node (\<lambda>h. None)) (coinbase_in ''04ffff'')
           (Some [((''zz'', 0), example_row)]) = Inr r2"
    and p2: "previous_output r2 =
         \<lparr>op_txid = replicate 64 (CHR ''0''), op_vout = 0xFFFFFFFF,
          op_data = \<lparr>out_value = 0, pk_script = ''0x'', cached = False\<rparr>,
          op_block_height = 0, median_time_past = 0, is_coinbase = False\<rparr>"
    and s2: "set (op_txid (previous_output r2)) = {CHR ''0''}"
    by blast
  have v1: "op_vout (previous_output r1) = 4294967295"
    unfolding p1 by simp
  have v2: "op_vout (previous_output r2) = 4294967295"
    unfolding p2 by simp
  from r1 v1 l1 have e1:
    "\<exists>r. resolve_input (example_node (\<lambda>h. None)) (coinbase_in ''04ffff'') None = Inr r
          \<and> op_vout (previous_output r) = 4294967295
          \<and> length (op_txid (previous_output r)) = 64"
    by blast
  from r2 v2 s2 have e2:
    "\<exists>r. resolve_input (example_node (\<lambda>h. None)) (coinbase_in ''04ffff'')
             (Some [((''zz'', 0), example_row)]) = Inr r
          \<and> op_vout (previous_output r) = 4294967295
          \<and> set (op_txid (previous_output r)) = {CHR ''0''}"
    by blast
  show ?thesis
    by (rule conjI [OF c conjI [OF e1 e2]])
qed

text \<open>
  C8. \<^verbatim>\<open>resolve_outpoint\<close> returns an outpoint exactly when the spent transaction, the
  header of its block and the header of the block before are found and the two indexings
  succeed; the outpoint then carries the input's transaction id and index, the formatted
  output of the spent transaction at that index, the height of the containing block, the
  median time of the block before it, and \<open>is_coinbase\<close> is true iff the first input of
  the spent transaction has the key \<^verbatim>\<open>coinbase\<close>.
\<close>

theorem resolve_outpoint_exact:
  "resolve_outpoint nd inp = Inr r \<longleftrightarrow>
     (\<exists>txid spent bh blk ph prev_block n out first_in.
        in_txid inp = Some txid \<and> getrawtransaction nd txid = Some spent
      \<and> blockhash spent = Some bh \<and> getblockheader nd bh = Some blk
      \<and> previousblockhash blk = Some ph \<and> getblockheader nd ph = Some prev_block
      \<and> in_vout inp = Some n \<and> py_index (vout spent) n = Inr out
      \<and> py_index (vin spent) 0 = Inr first_in
      \<and> r = \<lparr>op_txid = txid, op_vout = n, op_data = format_output out,
              op_block_height = height blk, median_time_past = mediantime prev_block,
              is_coinbase = (coinbase first_in \<noteq> None)\<rparr>)"
  unfolding resolve_outpoint_def and_then_Inr_iff item_Inr_iff request_rpc_Inr_iff
  by (simp add: eq_commute [of r])

theorem resolve_outpoint_exact_witness:
  "resolve_outpoint (example_node (\<lambda>h. None)) (spend_in ''a'' 0) =
     Inr \<lparr>op_txid = ''a'', op_vout = 0, op_data = format_output (pay 200 (- 1)),
          op_block_height = 2, median_time_past = 150, is_coinbase = False\<rparr>
   \<and> resolve_outpoint (example_node (\<lambda>h. None)) (spend_in ''c1'' 0) =
     Inr \<lparr>op_txid = ''c1'', op_vout = 0, op_data = format_output (pay 500 (- 1)),
          op_block_height = 1, median_time_past = 100, is_coinbase = True\<rparr>"
proof -
  let ?nd = "example_node (\<lambda>h. None)"
  let ?ra = "\<lparr>op_txid = ''a'', op_vout = 0, op_data = format_output (pay 200 (- 1)),
          op_block_height = 2, median_time_past = 150, is_coinbase = False\<rparr>"
  let ?rc = "\<lparr>op_txid = ''c1'', op_vout = 0, op_data = format_output (pay 500 (- 1)),
          op_block_height = 1, median_time_past = 100, is_coinbase = True\<rparr>"
  have a: "\<exists>txid spent bh blk ph prev_block n out first_in.
        in_txid (spend_in ''a'' 0) = Some txid \<and> getrawtransaction ?nd txid = Some spent
      \<and> blockhash spent = Some bh \<and> getblockheader ?nd bh = Some blk
      \<and> previousblockhash blk = Some ph \<and> getblockheader ?nd ph = Some prev_block
      \<and> in_vout (spend_in ''a'' 0) = Some n \<and> py_index (vout spent) n = Inr out
      \<and> py_index (vin spent) 0 = Inr first_in
      \<and> ?ra = \<lparr>op_txid = txid, op_vout = n, op_data = format_output out,
              op_block_height = height blk, median_time_past = mediantime prev_block,
              is_coinbase = (coinbase first_in \<noteq> None)\<rparr>"
    by (simp add: spend_in_def example_node_def example_txs_def example_tx_def
        example_headers_def chain_header_def py_index_def coinbase_in_def)
  have c: "\<exists>txid spent bh blk ph prev_block n out first_in.
        in_txid (spend_in ''c1'' 0) = Some txid \<and> getrawtransaction ?nd txid = Some spent
      \<and> blockhash spent = Some bh \<and> getblockheader ?nd bh = Some blk
      \<and> previousblockhash blk = Some ph \<and> getblockheader ?nd ph = Some prev_block
      \<and> in_vout (spend_in ''c1'' 0) = Some n \<and> py_index (vout spent) n = Inr out
      \<and> py_index (vin spent) 0 = Inr first_in
      \<and> ?rc = \<lparr>op_txid = txid, op_vout = n, op_data = format_output out,
              op_block_height = height blk, median_time_past = mediantime prev_block,
              is_coinbase = (coinbase first_in \<noteq> None)\<rparr>"
    by (simp add: spend_in_def example_node_def example_txs_def example_tx_def
        example_headers_def chain_header_def py_index_def coinbase_in_def)
  from a c show ?thesis
    by (simp only: resolve_outpoint_exact [symmetric])
qed

lemma resolve_input_falsy_snapshot:
  "\<not> truthy previous_outputs \<Longrightarrow>
   resolve_input nd inp previous_outputs = resolve_input nd inp None"
  unfolding resolve_input_def by (simp only: truthy_simps if_False)

lemma resolve_transaction_falsy_snapshot:
  "\<not> truthy previous_outputs \<Longrightarrow>
   resolve_transaction nd t previous_outputs = resolve_transaction nd t None"
  by (simp add: resolve_transaction_def resolve_input_falsy_snapshot [of previous_outputs])

lemma dict_of_Nil: "dict_of [] = []"
  by (simp add: dict_of_def)

lemma provider_simps [simp]:
  "provider None = Inl ProviderError"
  "provider (Some v) = Inr v"
  by (simp_all add: provider_def)

text \<open>
  C10. For an input that Python does not take for a coinbase input, the branch of
  \<^verbatim>\<open>resolve_input\<close> is chosen by the truth value of the snapshot alone. With a snapshot
  that is \<^verbatim>\<open>None\<close> or empty the input is resolved as with no snapshot, through
  \<^verbatim>\<open>resolve_outpoint\<close>: its errors are the errors of the result and its outpoint is the
  previous output of the result. So a block fetched in fast mode whose snapshot comes back
  empty is resolved as in exact mode. With a snapshot that is not empty, a key that is
  missing raises \<^verbatim>\<open>KeyError\<close>.
\<close>

theorem resolve_input_branches_on_truthiness:
  assumes "\<not> truthy (coinbase inp)"
  shows "(\<not> truthy previous_outputs \<longrightarrow>
            resolve_input nd inp previous_outputs = resolve_input nd inp None
          \<and> (\<forall>e. resolve_outpoint nd inp = Inl e \<longrightarrow>
                 resolve_input nd inp previous_outputs = Inl e)
          \<and> (\<forall>r. resolve_input nd inp previous_outputs = Inr r \<longrightarrow>
                 resolve_outpoint nd inp = Inr (previous_output r)))
       \<and> (getblock nd h = Some blk \<and> get_utxo_set nd (height blk) = Some [] \<longrightarrow>
            fetch_block nd h True = fetch_block nd h False)
       \<and> (in_txid inp = Some txid \<and> in_vout inp = Some n \<and> d \<noteq> []
            \<and> map_of d (txid, n) = None \<longrightarrow>
            resolve_input nd inp (Some d) = Inl KeyError)"
proof -
  have a: "resolve_input nd inp previous_outputs = resolve_input nd inp None"
    if "\<not> truthy previous_outputs"
    using that by (rule resolve_input_falsy_snapshot)
  have b: "resolve_input nd inp previous_outputs = Inl e"
    if "\<not> truthy previous_outputs" and "resolve_outpoint nd inp = Inl e" for e
    using that assms by (simp add: resolve_input_def)
  have c: "resolve_outpoint nd inp = Inr (previous_output r)"
    if "\<not> truthy previous_outputs" and "resolve_input nd inp previous_outputs = Inr r" for r
    using that assms by (auto simp: resolve_input_def and_then_Inr_iff)
  have d: "fetch_block nd h True = fetch_block nd h False"
    if "getblock nd h = Some blk" and "get_utxo_set nd (height blk) = Some []"
    using that
    by (simp add: fetch_block_def dict_of_Nil resolve_transaction_falsy_snapshot [of "Some []"])
  have e: "resolve_input nd inp (Some d) = Inl KeyError"
    if "in_txid inp = Some txid" and "in_vout inp = Some n" and "d \<noteq> []"
      and "map_of d (txid, n) = None"
    using that assms by (simp add: resolve_input_def subscript_def)
  have A: "\<not> truthy previous_outputs \<longrightarrow>
            resolve_input nd inp previous_outputs = resolve_input nd inp None
          \<and> (\<forall>e. resolve_outpoint nd inp = Inl e \<longrightarrow>
                 resolve_input nd inp previous_outputs = Inl e)
          \<and> (\<forall>r. resolve_input nd inp previous_outputs = Inr r \<longrightarrow>
                 resolve_outpoint nd inp = Inr (previous_output r))"
    by (intro impI conjI allI) (erule a, erule (1) b, erule (1) c)
  have D: "getblock nd h = Some blk \<and> get_utxo_set nd (height blk) = Some [] \<longrightarrow>
            fetch_block nd h True = fetch_block nd h False"
    by (intro impI, elim conjE) (rule d)
  have E: "in_txid inp = Some txid \<and> in_vout inp = Some n \<and> d \<noteq> []
            \<and> map_of d (txid, n) = None \<longrightarrow>
            resolve_input nd inp (Some d) = Inl KeyError"
    by (intro impI, elim conjE) (rule e)
  show ?thesis
    by (rule conjI [OF A conjI [OF D E]])
qed

theorem resolve_input_branches_on_truthiness_witness:
  "resolve_input (example_node (\<lambda>h. Some [])) (spend_in ''a'' 0) (Some []) =
     resolve_input (example_node (\<lambda>h. Some [])) (spend_in ''a'' 0) None
   \<and> resolve_outpoint (example_node (\<lambda>h. Some [])) (spend_in ''a'' 0) =
     Inr \<lparr>op_txid = ''a'', op_vout = 0, op_data = format_output (pay 200 (- 1)),
          op_block_height = 2, median_time_past = 150, is_coinbase = False\<rparr>
   \<and> fetch_block (example_node (\<lambda>h. Some [])) ''b2'' True =
     fetch_block (example_node (\<lambda>h. Some [])) ''b2'' False
   \<and> resolve_input (example_node (\<lambda>h. Some [])) (spend_in ''a'' 0)
       (Some [((''zz'', 0), example_row)]) = Inl KeyError"
proof -
  let ?nd = "example_node (\<lambda>h. Some [])"
  let ?r = "\<lparr>script = ''0x47'', sequence = 4294967295,
     previous_output =
       \<lparr>op_txid = ''a'', op_vout = 0, op_data = format_output (pay 200 (- 1)),
        op_block_height = 2, median_time_past = 150, is_coinbase = False\<rparr>,
     witness = []\<rparr>"
  have nc: "\<not> truthy (coinbase (spend_in ''a'' 0))"
    by (simp add: spend_in_def)
  have ex: "resolve_input ?nd (spend_in ''a'' 0) (Some []) = Inr ?r"
    by (simp add: resolve_input_def resolve_outpoint_def spend_in_def example_node_def
        example_txs_def example_tx_def example_headers_def chain_header_def py_index_def
        coinbase_in_def)
  have blk: "getblock ?nd ''b2'' \<noteq> None"
    by (simp add: example_node_def example_block_def example_headers_def)
  then obtain b where b: "getblock ?nd ''b2'' = Some b"
    by blast
  have u: "get_utxo_set ?nd (height b) = Some []"
    by (simp add: example_node_def)
  have k: "in_txid (spend_in ''a'' 0) = Some ''a'' \<and> in_vout (spend_in ''a'' 0) = Some 0
     \<and> [((''zz'', 0 :: int), example_row)] \<noteq> []
     \<and> map_of [((''zz'', 0 :: int), example_row)] (''a'', 0) = None"
    by (simp add: spend_in_def)
  from resolve_input_branches_on_truthiness
    [OF nc, of "Some []" ?nd "''b2''" b "''a''" 0 "[((''zz'', 0), example_row)]"]
    ex b u k
  show ?thesis by simp
qed


subsection \<open>The fixture in utreexo mode\<close>

lemmas node_defs = example_node_def example_headers_def chain_header_def example_block_def
  example_txs_def example_tx_def coinbase_in_def spend_in_def pay_def

lemmas cp_defs = cache_pass_def first_pass_def first_pass_tx_def mark_input_def add_output_def
  second_pass_def second_pass_tx_def propagate_def set_input_cached_def set_output_cached_def
  output_at_def

lemma fetch_blocks_length:
  "fetch_blocks nd mode fast n nh st bs = Inr r \<Longrightarrow> length (snd r) = length bs + n"
proof (induction n arbitrary: nh st bs)
  case 0
  then show ?case by auto
next
  case (Suc n)
  from Suc.prems obtain blk h where
    "fetch_blocks nd mode fast n h (next_chain_state st blk) (bs @ [blk]) = Inr r"
    by (auto split: sum.splits)
  from Suc.IH [OF this] show ?case by simp
qed

lemma map_err_length: "map_err f xs = Inr ys \<Longrightarrow> length ys = length xs"
  by (induction xs arbitrary: ys) (auto split: sum.splits)

lemma generate_data_utreexo_Inr:
  assumes "generate_data nd ''utreexo'' h num_blocks fast = Inr fx"
  shows "num_blocks = 1 \<and> length (fx_blocks fx) = 1
     \<and> (\<exists>s0 nh s blk u.
           (if fast then fetch_chain_state_fast nd h else fetch_chain_state nd h) = Inr s0
         \<and> nextblockhash s0 = Some nh
         \<and> fetch_blocks nd ''utreexo'' fast (nat num_blocks) nh s0 [] = Inr (s, [blk])
         \<and> get_utreexo_data nd (height blk) = Some u
         \<and> fx_utreexo fx = Some u)"
proof -
  from assms obtain s0 nh r f0 fbs f1 where
    s0: "(if fast then fetch_chain_state_fast nd h else fetch_chain_state nd h) = Inr s0"
    and nh: "nextblockhash s0 = Some nh"
    and r: "fetch_blocks nd ''utreexo'' fast (nat num_blocks) nh s0 [] = Inr r"
    and fbs: "map_err format_block_with_transactions (snd r) = Inr fbs"
    and fin: "(if length (snd r) = 1
          then and_then (provider (get_utreexo_data nd (height (snd r ! 0)))) (\<lambda>u.
                 Inr \<lparr>fx_chain_state = f0, fx_blocks = fbs,
                      fx_expected = f1, fx_utreexo = Some u\<rparr>)
          else Inl AssertionError) = Inr fx"
    unfolding generate_data_def and_then_Inr_iff item_Inr_iff by auto
  from fin have len: "length (snd r) = 1"
    by (auto split: if_splits)
  with fin obtain u where u: "get_utreexo_data nd (height (snd r ! 0)) = Some u"
    and fx: "fx = \<lparr>fx_chain_state = f0, fx_blocks = fbs, fx_expected = f1, fx_utreexo = Some u\<rparr>"
    by (cases "get_utreexo_data nd (height (snd r ! 0))") auto
  from fetch_blocks_length [OF r] len have n: "nat num_blocks = 1" by simp
  then have n1: "num_blocks = 1" by simp
  from len obtain blk where blk: "snd r = [blk]"
    by (cases "snd r") auto
  then have r': "r = (fst r, [blk])" by (cases r) simp
  have "length (fx_blocks fx) = 1"
    using map_err_length [OF fbs] len fx by simp
  moreover have "fetch_blocks nd ''utreexo'' fast (nat num_blocks) nh s0 [] = Inr (fst r, [blk])"
    using r r' by simp
  moreover have "get_utreexo_data nd (height blk) = Some u" using u blk by simp
  moreover have "fx_utreexo fx = Some u" using fx by simp
  ultimately show ?thesis using n1 s0 nh by blast
qed

lemma generate_data_utreexo_assert:
  assumes "num_blocks \<noteq> 1"
    and "(if fast then fetch_chain_state_fast nd h else fetch_chain_state nd h) = Inr s0"
    and "nextblockhash s0 = Some nh"
    and "fetch_blocks nd ''utreexo'' fast (nat num_blocks) nh s0 [] = Inr r"
    and "format_chain_state s0 = Inr f0"
    and "map_err format_block_with_transactions (snd r) = Inr fbs"
    and "format_chain_state (fst r) = Inr f1"
  shows "generate_data nd ''utreexo'' h num_blocks fast = Inl AssertionError"
proof -
  from fetch_blocks_length [OF assms(4)] have "length (snd r) = nat num_blocks" by simp
  moreover have "nat num_blocks \<noteq> 1" using assms(1) by auto
  ultimately have "length (snd r) \<noteq> 1" by simp
  then show ?thesis
    using assms(2-7) by (simp add: generate_data_def)
qed

lemma generate_data_utreexo_never:
  assumes "num_blocks \<noteq> 1"
  shows "\<exists>e. generate_data nd ''utreexo'' h num_blocks fast = Inl e"
proof (cases "generate_data nd ''utreexo'' h num_blocks fast")
  case (Inl e)
  then show ?thesis by blast
next
  case (Inr fx)
  from generate_data_utreexo_Inr [OF this] assms show ?thesis by simp
qed


lemma generate_data_utreexo_one:
  assumes "(if fast then fetch_chain_state_fast nd h else fetch_chain_state nd h) = Inr s0"
    and "nextblockhash s0 = Some nh"
    and "fetch_blocks nd ''utreexo'' fast (nat 1) nh s0 [] = Inr r"
    and "format_chain_state s0 = Inr f0"
    and "map_err format_block_with_transactions (snd r) = Inr fbs"
    and "format_chain_state (fst r) = Inr f1"
    and "get_utreexo_data nd (height (snd r ! 0)) = Some u"
  shows "generate_data nd ''utreexo'' h 1 fast =
     Inr \<lparr>fx_chain_state = f0, fx_blocks = fbs, fx_expected = f1, fx_utreexo = Some u\<rparr>"
proof -
  from fetch_blocks_length [OF assms(3)] have "length (snd r) = 1" by simp
  then show ?thesis
    using assms by (simp add: generate_data_def)
qed

text \<open>
  C9. In utreexo mode a run over a number of blocks other than one never returns a
  fixture, and once the initial state, all the blocks and their formatting have
  succeeded it ends in the assertion: the blocks are fetched first and counted
  afterwards. A fixture that is returned has exactly one block and carries the payload
  that the accumulator provider gives for the height of that block; and a run over one
  block whose lookups all succeed returns that fixture.
\<close>

theorem generate_data_utreexo_one_block:
  "(num_blocks \<noteq> 1 \<longrightarrow> (\<exists>e. generate_data nd ''utreexo'' h num_blocks fast = Inl e))
   \<and> (num_blocks \<noteq> 1
       \<and> (if fast then fetch_chain_state_fast nd h else fetch_chain_state nd h) = Inr s0
       \<and> nextblockhash s0 = Some nh
       \<and> fetch_blocks nd ''utreexo'' fast (nat num_blocks) nh s0 [] = Inr r
       \<and> format_chain_state s0 = Inr f0
       \<and> map_err format_block_with_transactions (snd r) = Inr fbs
       \<and> format_chain_state (fst r) = Inr f1
       \<longrightarrow> length (snd r) = nat num_blocks
         \<and> generate_data nd ''utreexo'' h num_blocks fast = Inl AssertionError)
   \<and> (generate_data nd ''utreexo'' h num_blocks fast = Inr fx
       \<longrightarrow> num_blocks = 1 \<and> length (fx_blocks fx) = 1
         \<and> (\<exists>s1 nh1 s blk u.
               (if fast then fetch_chain_state_fast nd h else fetch_chain_state nd h) = Inr s1
             \<and> nextblockhash s1 = Some nh1
             \<and> fetch_blocks nd ''utreexo'' fast (nat num_blocks) nh1 s1 [] = Inr (s, [blk])
             \<and> get_utreexo_data nd (height blk) = Some u
             \<and> fx_utreexo fx = Some u))
   \<and> ((if fast then fetch_chain_state_fast nd h else fetch_chain_state nd h) = Inr s0'
       \<and> nextblockhash s0' = Some nh'
       \<and> fetch_blocks nd ''utreexo'' fast (nat 1) nh' s0' [] = Inr r'
       \<and> format_chain_state s0' = Inr f0'
       \<and> map_err format_block_with_transactions (snd r') = Inr fbs'
       \<and> format_chain_state (fst r') = Inr f1'
       \<and> get_utreexo_data nd (height (snd r' ! 0)) = Some u'
       \<longrightarrow> generate_data nd ''utreexo'' h 1 fast =
             Inr \<lparr>fx_chain_state = f0', fx_blocks = fbs', fx_expected = f1',
                  fx_utreexo = Some u'\<rparr>)"
proof -
  have A: "num_blocks \<noteq> 1 \<longrightarrow> (\<exists>e. generate_data nd ''utreexo'' h num_blocks fast = Inl e)"
    by (intro impI) (rule generate_data_utreexo_never)
  have B: "num_blocks \<noteq> 1
       \<and> (if fast then fetch_chain_state_fast nd h else fetch_chain_state nd h) = Inr s0
       \<and> nextblockhash s0 = Some nh
       \<and> fetch_blocks nd ''utreexo'' fast (nat num_blocks) nh s0 [] = Inr r
       \<and> format_chain_state s0 = Inr f0
       \<and> map_err format_block_with_transactions (snd r) = Inr fbs
       \<and> format_chain_state (fst r) = Inr f1
       \<longrightarrow> length (snd r) = nat num_blocks
         \<and> generate_data nd ''utreexo'' h num_blocks fast = Inl AssertionError"
  proof (intro impI, elim conjE, intro conjI)
    assume "fetch_blocks nd ''utreexo'' fast (nat num_blocks) nh s0 [] = Inr r"
    from fetch_blocks_length [OF this] show "length (snd r) = nat num_blocks" by simp
  next
    assume "num_blocks \<noteq> 1"
      and "(if fast then fetch_chain_state_fast nd h else fetch_chain_state nd h) = Inr s0"
      and "nextblockhash s0 = Some nh"
      and "fetch_blocks nd ''utreexo'' fast (nat num_blocks) nh s0 [] = Inr r"
      and "format_chain_state s0 = Inr f0"
      and "map_err format_block_with_transactions (snd r) = Inr fbs"
      and "format_chain_state (fst r) = Inr f1"
    then show "generate_data nd ''utreexo'' h num_blocks fast = Inl AssertionError"
      by (rule generate_data_utreexo_assert)
  qed
  have C: "generate_data nd ''utreexo'' h num_blocks fast = Inr fx
       \<longrightarrow> num_blocks = 1 \<and> length (fx_blocks fx) = 1
         \<and> (\<exists>s1 nh1 s blk u.
               (if fast then fetch_chain_state_fast nd h else fetch_chain_state nd h) = Inr s1
             \<and> nextblockhash s1 = Some nh1
             \<and> fetch_blocks nd ''utreexo'' fast (nat num_blocks) nh1 s1 [] = Inr (s, [blk])
             \<and> get_utreexo_data nd (height blk) = Some u
             \<and> fx_utreexo fx = Some u)"
    by (intro impI) (rule generate_data_utreexo_Inr)
  have D: "(if fast then fetch_chain_state_fast nd h else fetch_chain_state nd h) = Inr s0'
       \<and> nextblockhash s0' = Some nh'
       \<and> fetch_blocks nd ''utreexo'' fast (nat 1) nh' s0' [] = Inr r'
       \<and> format_chain_state s0' = Inr f0'
       \<and> map_err format_block_with_transactions (snd r') = Inr fbs'
       \<and> format_chain_state (fst r') = Inr f1'
       \<and> get_utreexo_data nd (height (snd r' ! 0)) = Some u'
       \<longrightarrow> generate_data nd ''utreexo'' h 1 fast =
             Inr \<lparr>fx_chain_state = f0', fx_blocks = fbs', fx_expected = f1',
                  fx_utreexo = Some u'\<rparr>"
    by (intro impI, elim conjE) (rule generate_data_utreexo_one)
  show ?thesis
    by (rule conjI [OF A conjI [OF B conjI [OF C D]]])
qed


lemma next_chain_state_header_fields:
  "chainwork (next_chain_state s b) = chainwork b"
  "bits (next_chain_state s b) = bits b"
  by (simp_all add: next_chain_state_def header.extend_def header.truncate_def
      chain_state.fields_def)

lemma example_fetch_and_mark:
  "\<exists>blk. fetch_and_mark (example_node (\<lambda>h. None)) ''utreexo'' False ''b2'' = Inr blk
     \<and> nextblockhash blk = Some ''b3'' \<and> height blk = 2 \<and> data blk \<noteq> None
     \<and> bits blk = ''1d00ffff'' \<and> chainwork blk = ''0100010001''"
  "\<exists>blk. fetch_and_mark (example_node (\<lambda>h. None)) ''utreexo'' False ''b3'' = Inr blk
     \<and> nextblockhash blk = Some ''b4'' \<and> height blk = 3 \<and> data blk \<noteq> None
     \<and> bits blk = ''1d00ffff'' \<and> chainwork blk = ''0100010001''"
  by (simp_all add: fetch_and_mark_def fetch_block_def resolve_transaction_def resolve_input_def
      resolve_outpoint_def format_coinbase_input_def format_output_def py_index_def dict_of_def
      node_defs cp_defs header.extend_def header.truncate_def rpc_block.fields_def
      block.fields_def Let_def)

lemma format_example:
  assumes "bits s = ''1d00ffff''" and "chainwork s = ''0100010001''"
  shows "\<exists>f. format_chain_state s = Inr f"
  using assms
  by (simp add: format_chain_state_def bits_to_target_def hex_digit_def is_space_def Let_def)

lemma format_block_example:
  assumes "bits b = ''1d00ffff''" and "data b \<noteq> None"
  shows "\<exists>f. format_block_with_transactions b = Inr f"
  using assms
  by (auto simp add: format_block_with_transactions_def format_header_def hex_digit_def
      is_space_def)

theorem generate_data_utreexo_one_block_witness:
  "generate_data (example_node (\<lambda>h. None)) ''utreexo'' 1 2 False = Inl AssertionError
   \<and> (\<exists>fx. generate_data (example_node (\<lambda>h. None)) ''utreexo'' 1 1 False = Inr fx
          \<and> fx_utreexo fx = Some ''acc2'' \<and> length (fx_blocks fx) = 1)"
proof -
  let ?nd = "example_node (\<lambda>h. None)"
  let ?s0 = "header.extend (chain_header ''b1'' 1 200 150 (Some ''b0'') (Some ''b2''))
            (chain_state.fields [100, 200] 1231006505)"
  have s0: "(if False then fetch_chain_state_fast ?nd 1 else fetch_chain_state ?nd 1) = Inr ?s0"
    by (simp add: fetch_chain_state_def example_node_def example_headers_def
        chain_header_def eval_nat_numeral)
  have nh: "nextblockhash ?s0 = Some ''b2''"
    by (simp add: extend_state_simps chain_header_def)
  from example_fetch_and_mark(1) obtain b2 where
    b2: "fetch_and_mark ?nd ''utreexo'' False ''b2'' = Inr b2"
    and b2n: "nextblockhash b2 = Some ''b3''" and b2h: "height b2 = 2"
    and b2d: "data b2 \<noteq> None" and b2b: "bits b2 = ''1d00ffff''"
    and b2c: "chainwork b2 = ''0100010001''"
    by blast
  from example_fetch_and_mark(2) obtain b3 where
    b3: "fetch_and_mark ?nd ''utreexo'' False ''b3'' = Inr b3"
    and b3n: "nextblockhash b3 = Some ''b4''" and b3h: "height b3 = 3"
    and b3d: "data b3 \<noteq> None" and b3b: "bits b3 = ''1d00ffff''"
    and b3c: "chainwork b3 = ''0100010001''"
    by blast
  let ?s1 = "next_chain_state ?s0 b2"
  let ?s2 = "next_chain_state ?s1 b3"
  have r2: "fetch_blocks ?nd ''utreexo'' False (nat 2) ''b2'' ?s0 [] = Inr (?s2, [b2, b3])"
    using b2 b2n b3 b3n by (simp add: eval_nat_numeral)
  have r1: "fetch_blocks ?nd ''utreexo'' False (nat 1) ''b2'' ?s0 [] = Inr (?s1, [b2])"
    using b2 b2n by simp
  obtain f0 where f0: "format_chain_state ?s0 = Inr f0"
    using format_example [of ?s0]
    by (auto simp add: header.extend_def chain_state.fields_def chain_header_def)
  obtain f1 where f1: "format_chain_state ?s1 = Inr f1"
    using format_example [of ?s1] b2b b2c by (auto simp add: next_chain_state_header_fields)
  obtain f2 where f2: "format_chain_state ?s2 = Inr f2"
    using format_example [of ?s2] b3b b3c by (auto simp add: next_chain_state_header_fields)
  obtain g2 where g2: "format_block_with_transactions b2 = Inr g2"
    using format_block_example [OF b2b b2d] by blast
  obtain g3 where g3: "format_block_with_transactions b3 = Inr g3"
    using format_block_example [OF b3b b3d] by blast
  have m2: "map_err format_block_with_transactions (snd (?s2, [b2, b3])) = Inr [g2, g3]"
    using g2 g3 by simp
  have m1: "map_err format_block_with_transactions (snd (?s1, [b2])) = Inr [g2]"
    using g2 by simp
  have u: "get_utreexo_data ?nd (height (snd (?s1, [b2]) ! 0)) = Some ''acc2''"
    using b2h by (simp add: example_node_def)
  note inst = generate_data_utreexo_one_block
    [where num_blocks = 2 and nd = "?nd" and h = 1 and fast = False and ?s0.0 = "?s0"
      and nh = "''b2''" and r = "(?s2, [b2, b3])" and ?f0.0 = f0 and fbs = "[g2, g3]"
      and ?f1.0 = f2 and s0' = "?s0" and nh' = "''b2''" and r' = "(?s1, [b2])"
      and f0' = f0 and fbs' = "[g2]" and f1' = f1 and u' = "''acc2''"]
  have two: "generate_data ?nd ''utreexo'' 1 2 False = Inl AssertionError"
    using inst s0 nh r2 f0 m2 f2 by simp
  have one: "generate_data ?nd ''utreexo'' 1 1 False =
      Inr \<lparr>fx_chain_state = f0, fx_blocks = [g2], fx_expected = f1,
           fx_utreexo = Some ''acc2''\<rparr>"
    using inst s0 nh r1 f0 m1 f1 u by simp
  from two one show ?thesis by simp
qed

subsection \<open>The cache pass\<close>

lemmas obs_defs = n_inputs_def n_outputs_def input_cached_def output_cached_def spent_key_def

lemma length_set_input_cached [simp]: "length (set_input_cached p k t) = length t"
  by (simp add: set_input_cached_def Let_def)

lemma fst_set_input_cached [simp]: "fst (set_input_cached p k t ! p') = fst (t ! p')"
  by (cases "p < length t") (auto simp add: not_less list_update_beyond set_input_cached_def Let_def nth_list_update)

lemma n_inputs_set_input_cached [simp]:
  "n_inputs (set_input_cached p k t) p' = n_inputs t p'"
  by (cases "p < length t") (auto simp add: not_less list_update_beyond n_inputs_def set_input_cached_def Let_def nth_list_update)

lemma n_outputs_set_input_cached [simp]:
  "n_outputs (set_input_cached p k t) p' = n_outputs t p'"
  by (cases "p < length t") (auto simp add: not_less list_update_beyond n_outputs_def set_input_cached_def Let_def nth_list_update)

lemma output_cached_set_input_cached [simp]:
  "output_cached (set_input_cached p k t) p' i = output_cached t p' i"
  by (cases "p < length t") (auto simp add: not_less list_update_beyond output_cached_def set_input_cached_def Let_def nth_list_update)

lemma spent_key_set_input_cached [simp]:
  "spent_key (set_input_cached p k t) p' k' = spent_key t p' k'"
  by (cases "p < length t"; cases "k < length (inputs (snd (t ! p)))"; cases "k' = k")
    (auto simp add: not_less list_update_beyond spent_key_def set_input_cached_def Let_def nth_list_update)

lemma input_cached_set_input_cached:
  "p < length t \<Longrightarrow> k < n_inputs t p \<Longrightarrow>
   input_cached (set_input_cached p k t) p' k' = (input_cached t p' k' \<or> (p' = p \<and> k' = k))"
  by (auto simp add: input_cached_def n_inputs_def set_input_cached_def Let_def nth_list_update)

lemma length_set_output_cached [simp]: "length (set_output_cached r t) = length t"
  by (simp add: set_output_cached_def Let_def)

lemma fst_set_output_cached [simp]: "fst (set_output_cached r t ! p') = fst (t ! p')"
  by (cases "fst r < length t") (auto simp add: not_less list_update_beyond set_output_cached_def Let_def nth_list_update)

lemma n_inputs_set_output_cached [simp]:
  "n_inputs (set_output_cached r t) p' = n_inputs t p'"
  by (cases "fst r < length t") (auto simp add: not_less list_update_beyond n_inputs_def set_output_cached_def Let_def nth_list_update)

lemma n_outputs_set_output_cached [simp]:
  "n_outputs (set_output_cached r t) p' = n_outputs t p'"
  by (cases "fst r < length t") (auto simp add: not_less list_update_beyond n_outputs_def set_output_cached_def Let_def nth_list_update)

lemma input_cached_set_output_cached [simp]:
  "input_cached (set_output_cached r t) p' k = input_cached t p' k"
  by (cases "fst r < length t") (auto simp add: not_less list_update_beyond input_cached_def set_output_cached_def Let_def nth_list_update)

lemma spent_key_set_output_cached [simp]:
  "spent_key (set_output_cached r t) p' k' = spent_key t p' k'"
  by (cases "fst r < length t") (auto simp add: not_less list_update_beyond spent_key_def set_output_cached_def Let_def nth_list_update)

lemma output_cached_set_output_cached:
  "q < length t \<Longrightarrow> i < n_outputs t q \<Longrightarrow>
   output_cached (set_output_cached (q, i) t) q' i' = (output_cached t q' i' \<or> (q' = q \<and> i' = i))"
  by (auto simp add: output_cached_def n_outputs_def set_output_cached_def Let_def nth_list_update)

lemma same_shape_refl [simp]: "same_shape a a"
  by (simp add: same_shape_def)

lemma same_shape_trans: "same_shape a b \<Longrightarrow> same_shape b c \<Longrightarrow> same_shape a c"
  by (simp add: same_shape_def)

lemma same_shape_set_input_cached [simp]: "same_shape (set_input_cached p k t) t"
  by (simp add: same_shape_def)

lemma same_shape_set_output_cached [simp]: "same_shape (set_output_cached r t) t"
  by (simp add: same_shape_def)

lemma same_shapeD:
  assumes "same_shape a b"
  shows "length a = length b" "fst (a ! p) = fst (b ! p)" "n_inputs a p = n_inputs b p"
    "n_outputs a p = n_outputs b p" "spent_key a p k = spent_key b p k"
  using assms by (simp_all add: same_shape_def)

lemma refs_ok_shape: "same_shape a b \<Longrightarrow> refs_ok m b \<Longrightarrow> refs_ok m a"
  by (simp add: refs_ok_def same_shape_def)

lemma mark_input_eq:
  "mark_input p k (t, m) =
     (case m (spent_key t p k) of
        None \<Rightarrow> (t, m)
      | Some r \<Rightarrow> (set_output_cached r (set_input_cached p k t), m))"
  by (simp add: mark_input_def spent_key_def Let_def)

lemma mark_input_props:
  assumes "p < length t" and "k < n_inputs t p" and "refs_ok m t"
  shows "snd (mark_input p k (t, m)) = m"
    and "same_shape (fst (mark_input p k (t, m))) t"
    and "input_cached (fst (mark_input p k (t, m))) p' k' =
          (input_cached t p' k' \<or> (p' = p \<and> k' = k \<and> m (spent_key t p k) \<noteq> None))"
    and "output_cached (fst (mark_input p k (t, m))) q i =
          (output_cached t q i \<or> m (spent_key t p k) = Some (q, i))"
proof -
  show "snd (mark_input p k (t, m)) = m"
    by (simp add: mark_input_eq split: option.split)
  show "same_shape (fst (mark_input p k (t, m))) t"
    by (auto simp add: mark_input_eq split: option.split
        intro: same_shape_trans [OF same_shape_set_output_cached same_shape_set_input_cached])
  show "input_cached (fst (mark_input p k (t, m))) p' k' =
          (input_cached t p' k' \<or> (p' = p \<and> k' = k \<and> m (spent_key t p k) \<noteq> None))"
    using assms(1,2)
    by (auto simp add: mark_input_eq input_cached_set_input_cached split: option.split)
  show "output_cached (fst (mark_input p k (t, m))) q i =
          (output_cached t q i \<or> m (spent_key t p k) = Some (q, i))"
  proof (cases "m (spent_key t p k)")
    case None
    then show ?thesis by (simp add: mark_input_eq)
  next
    case (Some r)
    obtain q' i' where r: "r = (q', i')" by (cases r)
    from assms(3) Some r have "q' < length t" and "i' < n_outputs t q'"
      unfolding refs_ok_def by blast+
    then show ?thesis
      using Some r
      by (auto simp add: mark_input_eq output_cached_set_output_cached)
  qed
qed

lemma mark_inputs_props:
  assumes "p < length t" and "K \<le> n_inputs t p" and "refs_ok m t"
  shows "snd (fold (mark_input p) [0 ..< K] (t, m)) = m
    \<and> same_shape (fst (fold (mark_input p) [0 ..< K] (t, m))) t
    \<and> (\<forall>p' k'. input_cached (fst (fold (mark_input p) [0 ..< K] (t, m))) p' k' =
          (input_cached t p' k' \<or> (p' = p \<and> k' < K \<and> m (spent_key t p k') \<noteq> None)))
    \<and> (\<forall>q i. output_cached (fst (fold (mark_input p) [0 ..< K] (t, m))) q i =
          (output_cached t q i \<or> (\<exists>k<K. m (spent_key t p k) = Some (q, i))))"
  using assms(2)
proof (induction K)
  case 0
  show ?case by simp
next
  case (Suc K)
  let ?st = "fold (mark_input p) [0 ..< K] (t, m)"
  let ?t = "fst ?st"
  from Suc have IH: "snd ?st = m" "same_shape ?t t"
    "\<And>p' k'. input_cached ?t p' k' =
          (input_cached t p' k' \<or> (p' = p \<and> k' < K \<and> m (spent_key t p k') \<noteq> None))"
    "\<And>q i. output_cached ?t q i =
          (output_cached t q i \<or> (\<exists>k<K. m (spent_key t p k) = Some (q, i)))"
    by simp_all
  have st: "?st = (?t, m)" using IH(1) by (metis prod.collapse)
  have step: "fold (mark_input p) [0 ..< Suc K] (t, m) = mark_input p K (?t, m)"
    using st by simp
  have p': "p < length ?t" using assms(1) same_shapeD(1) [OF IH(2)] by simp
  have k': "K < n_inputs ?t p" using Suc.prems same_shapeD(3) [OF IH(2)] by simp
  have r': "refs_ok m ?t" by (rule refs_ok_shape [OF IH(2) assms(3)])
  have key: "spent_key ?t p K = spent_key t p K" by (rule same_shapeD(5) [OF IH(2)])
  note mp = mark_input_props [OF p' k' r']
  have a: "snd (fold (mark_input p) [0 ..< Suc K] (t, m)) = m"
    unfolding step by (rule mp(1))
  have b: "same_shape (fst (fold (mark_input p) [0 ..< Suc K] (t, m))) t"
    unfolding step by (rule same_shape_trans [OF mp(2) IH(2)])
  have c: "input_cached (fst (fold (mark_input p) [0 ..< Suc K] (t, m))) p' k' =
          (input_cached t p' k' \<or> (p' = p \<and> k' < Suc K \<and> m (spent_key t p k') \<noteq> None))"
    for p' k'
    unfolding step mp(3) IH(3) key by (auto simp: less_Suc_eq)
  have d: "output_cached (fst (fold (mark_input p) [0 ..< Suc K] (t, m))) q i =
          (output_cached t q i \<or> (\<exists>k<Suc K. m (spent_key t p k) = Some (q, i)))"
    for q i
    unfolding step mp(4) IH(4) key by (auto simp: less_Suc_eq)
  from a b c d show ?case by blast
qed

lemma add_outputs_props:
  "fold (add_output p) [0 ..< M] (t, m) =
     (t, \<lambda>key. if fst key = fst (t ! p) \<and> 0 \<le> snd key \<and> snd key < int M
                then Some (p, nat (snd key)) else m key)"
proof (induction M)
  case 0
  show ?case by (auto simp add: fun_eq_iff)
next
  case (Suc M)
  have "fold (add_output p) [0 ..< Suc M] (t, m) =
      add_output p M (fold (add_output p) [0 ..< M] (t, m))"
    by simp
  also have "\<dots> = add_output p M
      (t, \<lambda>key. if fst key = fst (t ! p) \<and> 0 \<le> snd key \<and> snd key < int M
                then Some (p, nat (snd key)) else m key)"
    by (simp only: Suc)
  also have "\<dots> =
      (t, \<lambda>key. if fst key = fst (t ! p) \<and> 0 \<le> snd key \<and> snd key < int (Suc M)
                then Some (p, nat (snd key)) else m key)"
    by (auto simp add: add_output_def Let_def fun_eq_iff)
  finally show ?case .
qed

lemma creates_iff:
  "creates txs q key = (\<exists>i<n_outputs txs q. key = (fst (txs ! q), int i))"
proof
  assume c: "creates txs q key"
  then have "nat (snd key) < n_outputs txs q" and "key = (fst (txs ! q), int (nat (snd key)))"
    by (auto simp: creates_def prod_eq_iff)
  then show "\<exists>i<n_outputs txs q. key = (fst (txs ! q), int i)" by blast
next
  assume "\<exists>i<n_outputs txs q. key = (fst (txs ! q), int i)"
  then show "creates txs q key" by (auto simp: creates_def)
qed

lemma distinct_txid:
  "distinct (map fst txs) \<Longrightarrow> p < length txs \<Longrightarrow> q < length txs \<Longrightarrow>
   fst (txs ! p) = fst (txs ! q) \<Longrightarrow> p = q"
  using nth_eq_iff_index_eq [of "map fst txs" p q] by simp

lemma first_pass_tx_eq:
  assumes "P < length t" and "refs_ok m t"
  shows "first_pass_tx P (t, m) =
     (fst (fold (mark_input P) [0 ..< n_inputs t P] (t, m)),
      \<lambda>key. if fst key = fst (t ! P) \<and> 0 \<le> snd key \<and> snd key < int (n_outputs t P)
             then Some (P, nat (snd key)) else m key)"
proof -
  let ?st1 = "fold (mark_input P) [0 ..< n_inputs t P] (t, m)"
  note mp = mark_inputs_props [OF assms(1) order_refl assms(2)]
  from mp have s: "snd ?st1 = m" and sh: "same_shape (fst ?st1) t" by simp_all
  have st1: "?st1 = (fst ?st1, m)" using s by (metis prod.collapse)
  have "first_pass_tx P (t, m) = fold (add_output P) [0 ..< n_outputs (fst ?st1) P] ?st1"
    by (simp add: first_pass_tx_def Let_def n_inputs_def n_outputs_def)
  also have "\<dots> = fold (add_output P) [0 ..< n_outputs t P] (fst ?st1, m)"
    using st1 same_shapeD(4) [OF sh] by simp
  also have "\<dots> = (fst ?st1,
      \<lambda>key. if fst key = fst (fst ?st1 ! P) \<and> 0 \<le> snd key \<and> snd key < int (n_outputs t P)
             then Some (P, nat (snd key)) else m key)"
    by (rule add_outputs_props)
  finally show ?thesis
    by (simp only: same_shapeD(2) [OF sh])
qed

lemma pass1_inv_step:
  assumes inv: "pass1_inv txs P st" and P: "P < length txs" and d: "distinct (map fst txs)"
  shows "pass1_inv txs (Suc P) (first_pass_tx P st)"
proof -
  obtain t m where st: "st = (t, m)" by (cases st)
  from inv have all: "same_shape t txs
      \<and> (\<forall>key q i. (m key = Some (q, i)) =
            (q < P \<and> key = (fst (txs ! q), int i) \<and> i < n_outputs txs q))
      \<and> (\<forall>p k. input_cached t p k =
            (input_cached txs p k
             \<or> (p < P \<and> k < n_inputs txs p \<and> (\<exists>q<p. creates txs q (spent_key txs p k)))))
      \<and> (\<forall>q i. output_cached t q i =
            (output_cached txs q i
             \<or> (\<exists>p<P. \<exists>k<n_inputs txs p. q < p \<and> i < n_outputs txs q
                   \<and> spent_key txs p k = (fst (txs ! q), int i))))"
    unfolding st pass1_inv_def fst_conv snd_conv .
  note sh = all [THEN conjunct1]
  note mI = all [THEN conjunct2, THEN conjunct1, rule_format]
  note inI = all [THEN conjunct2, THEN conjunct2, THEN conjunct1, rule_format]
  note outI = all [THEN conjunct2, THEN conjunct2, THEN conjunct2, rule_format]
  note shD = same_shapeD [OF sh]
  have Pt: "P < length t" using P shD(1) by simp
  have ro: "refs_ok m t"
    unfolding refs_ok_def using mI P shD(1) shD(4) by auto
  let ?st1 = "fold (mark_input P) [0 ..< n_inputs t P] (t, m)"
  let ?t1 = "fst ?st1"
  let ?m' = "\<lambda>key. if fst key = fst (t ! P) \<and> 0 \<le> snd key \<and> snd key < int (n_outputs t P)
             then Some (P, nat (snd key)) else m key"
  have eq: "first_pass_tx P st = (?t1, ?m')"
    unfolding st by (rule first_pass_tx_eq [OF Pt ro])
  note mp = mark_inputs_props [OF Pt order_refl ro]
  from mp have sh1: "same_shape ?t1 t"
    and in1: "\<And>p' k'. input_cached ?t1 p' k' =
          (input_cached t p' k' \<or> (p' = P \<and> k' < n_inputs t P \<and> m (spent_key t P k') \<noteq> None))"
    and out1: "\<And>q i. output_cached ?t1 q i =
          (output_cached t q i \<or> (\<exists>k<n_inputs t P. m (spent_key t P k) = Some (q, i)))"
    by simp_all
  have m_some: "m key \<noteq> None \<longleftrightarrow> (\<exists>q<P. creates txs q key)" for key
  proof -
    have "m key \<noteq> None \<longleftrightarrow> (\<exists>q i. m key = Some (q, i))" by auto
    also have "\<dots> \<longleftrightarrow> (\<exists>q<P. creates txs q key)"
      unfolding mI creates_iff by blast
    finally show ?thesis .
  qed
  have a: "same_shape ?t1 txs" by (rule same_shape_trans [OF sh1 sh])
  have b: "(?m' key = Some (q, i)) =
            (q < Suc P \<and> key = (fst (txs ! q), int i) \<and> i < n_outputs txs q)" for key q i
  proof (cases key)
    case (Pair x y)
    have cond: "(fst key = fst (t ! P) \<and> 0 \<le> snd key \<and> snd key < int (n_outputs t P)) =
        (x = fst (txs ! P) \<and> 0 \<le> y \<and> y < int (n_outputs txs P))"
      by (simp add: Pair shD(2) shD(4))
    show ?thesis
    proof (cases "x = fst (txs ! P) \<and> 0 \<le> y \<and> y < int (n_outputs txs P)")
      case True
      then have xP: "x = fst (txs ! P)" and y0: "0 \<le> y" and yn: "y < int (n_outputs txs P)"
        by blast+
      have m': "?m' key = Some (P, nat y)"
        by (simp only: cond True if_True) (simp add: Pair)
      show ?thesis
      proof
        assume "?m' key = Some (q, i)"
        with m' have q: "q = P" and i: "i = nat y" by simp_all
        have "key = (fst (txs ! q), int i)"
          using Pair xP y0 q i by simp
        moreover have "i < n_outputs txs q"
          using y0 yn q i by simp
        ultimately show "q < Suc P \<and> key = (fst (txs ! q), int i) \<and> i < n_outputs txs q"
          using q by simp
      next
        assume r: "q < Suc P \<and> key = (fst (txs ! q), int i) \<and> i < n_outputs txs q"
        then have "fst (txs ! q) = fst (txs ! P)"
          using Pair xP by simp
        moreover from r P have "q < length txs" by simp
        ultimately have q: "q = P"
          using distinct_txid [OF d _ P] by blast
        from r Pair have "y = int i" by simp
        then have "nat y = i" by simp
        with m' q show "?m' key = Some (q, i)" by simp
      qed
    next
      case False
      have m': "?m' key = m key"
        by (simp only: cond False if_False)
      have nP: "\<not> (key = (fst (txs ! P), int i) \<and> i < n_outputs txs P)"
        using False Pair by auto
      show ?thesis
        unfolding m' mI using nP by (auto simp: less_Suc_eq)
    qed
  qed
  have c: "input_cached ?t1 p k =
            (input_cached txs p k
             \<or> (p < Suc P \<and> k < n_inputs txs p \<and> (\<exists>q<p. creates txs q (spent_key txs p k))))"
    for p k
  proof -
    have "input_cached ?t1 p k =
        (input_cached t p k \<or> (p = P \<and> k < n_inputs t P \<and> m (spent_key t P k) \<noteq> None))"
      by (rule in1)
    also have "\<dots> = (input_cached txs p k
             \<or> (p < Suc P \<and> k < n_inputs txs p \<and> (\<exists>q<p. creates txs q (spent_key txs p k))))"
      unfolding inI m_some shD(3) shD(5) by (auto simp: less_Suc_eq)
    finally show ?thesis .
  qed
  have e: "output_cached ?t1 q i =
            (output_cached txs q i
             \<or> (\<exists>p<Suc P. \<exists>k<n_inputs txs p. q < p \<and> i < n_outputs txs q
                   \<and> spent_key txs p k = (fst (txs ! q), int i)))" for q i
  proof -
    have "output_cached ?t1 q i =
        (output_cached t q i \<or> (\<exists>k<n_inputs t P. m (spent_key t P k) = Some (q, i)))"
      by (rule out1)
    also have "\<dots> = (output_cached txs q i
             \<or> (\<exists>p<Suc P. \<exists>k<n_inputs txs p. q < p \<and> i < n_outputs txs q
                   \<and> spent_key txs p k = (fst (txs ! q), int i)))"
      unfolding outI mI shD(3) shD(5) by (auto simp: less_Suc_eq)
    finally show ?thesis .
  qed
  show ?thesis
    unfolding eq pass1_inv_def fst_conv snd_conv
    by (intro conjI allI) (rule a b c e)+
qed

lemma pass1_inv_fold:
  assumes d: "distinct (map fst txs)"
  shows "P \<le> length txs \<Longrightarrow> pass1_inv txs P (fold first_pass_tx [0 ..< P] (txs, Map.empty))"
proof (induction P)
  case 0
  show ?case by (simp add: pass1_inv_def)
next
  case (Suc P)
  then have "pass1_inv txs P (fold first_pass_tx [0 ..< P] (txs, Map.empty))" and "P < length txs"
    by simp_all
  from pass1_inv_step [OF this d] show ?case by simp
qed

lemma first_pass_inv:
  "distinct (map fst txs) \<Longrightarrow> pass1_inv txs (length txs) (first_pass txs)"
  unfolding first_pass_def by (rule pass1_inv_fold) simp_all

lemma obs_eq_refl [simp]: "obs_eq a a"
  by (simp add: obs_eq_def)

lemma obs_eq_trans:
  assumes "obs_eq a b" and "obs_eq b c"
  shows "obs_eq a c"
proof -
  from assms have "same_shape a b" and "same_shape b c"
    by (simp_all add: obs_eq_def)
  then have "same_shape a c" by (rule same_shape_trans)
  moreover from assms have "input_cached a p k = input_cached c p k" for p k
    by (simp add: obs_eq_def)
  moreover from assms have "output_cached a q i = output_cached c q i" for q i
    by (simp add: obs_eq_def)
  ultimately show ?thesis by (simp add: obs_eq_def)
qed

lemma obs_eq_shape: "obs_eq a b \<Longrightarrow> same_shape a b"
  by (simp add: obs_eq_def)

lemma self_refs_shape: "same_shape a b \<Longrightarrow> self_refs m b \<Longrightarrow> self_refs m a"
  by (simp add: self_refs_def same_shape_def)

lemma propagate_obs:
  assumes q: "q < length t" and i: "i < n_outputs t q" and s: "self_refs m t"
  shows "obs_eq (propagate m q i t) t"
proof (cases "m (fst (t ! q), int i)")
  case None
  then show ?thesis by (simp add: propagate_def)
next
  case (Some r)
  with s q have r: "r = (q, i)" unfolding self_refs_def by blast
  show ?thesis
  proof (cases "output_cached t q i")
    case True
    have "propagate m q i t = set_output_cached (q, i) t"
      using Some r True by (simp add: propagate_def output_at_def output_cached_def)
    moreover have "obs_eq (set_output_cached (q, i) t) t"
      unfolding obs_eq_def
      using True by (auto simp add: output_cached_set_output_cached [OF q i])
    ultimately show ?thesis by simp
  next
    case False
    then have "propagate m q i t = t"
      using Some r by (simp add: propagate_def output_at_def output_cached_def)
    then show ?thesis by simp
  qed
qed

lemma propagate_fold_obs:
  assumes q: "q < length t" and s: "self_refs m t"
  shows "M \<le> n_outputs t q \<Longrightarrow> obs_eq (fold (propagate m q) [0 ..< M] t) t"
proof (induction M)
  case 0
  show ?case by simp
next
  case (Suc M)
  let ?t = "fold (propagate m q) [0 ..< M] t"
  from Suc have IH: "obs_eq ?t t" by simp
  note sh = obs_eq_shape [OF IH]
  have "obs_eq (propagate m q M ?t) ?t"
  proof (rule propagate_obs)
    show "q < length ?t" using q same_shapeD(1) [OF sh] by simp
    show "M < n_outputs ?t q" using Suc.prems same_shapeD(4) [OF sh] by simp
    show "self_refs m ?t" by (rule self_refs_shape [OF sh s])
  qed
  from obs_eq_trans [OF this IH] show ?case by simp
qed

lemma second_pass_tx_obs:
  "q < length t \<Longrightarrow> self_refs m t \<Longrightarrow> obs_eq (second_pass_tx m q t) t"
  unfolding second_pass_tx_def n_outputs_def [symmetric]
  by (rule propagate_fold_obs) simp_all

lemma second_pass_fold_obs:
  assumes s: "self_refs m t"
  shows "P \<le> length t \<Longrightarrow> obs_eq (fold (second_pass_tx m) [0 ..< P] t) t"
proof (induction P)
  case 0
  show ?case by simp
next
  case (Suc P)
  let ?t = "fold (second_pass_tx m) [0 ..< P] t"
  from Suc have IH: "obs_eq ?t t" by simp
  note sh = obs_eq_shape [OF IH]
  have "obs_eq (second_pass_tx m P ?t) ?t"
  proof (rule second_pass_tx_obs)
    show "P < length ?t" using Suc.prems same_shapeD(1) [OF sh] by simp
    show "self_refs m ?t" by (rule self_refs_shape [OF sh s])
  qed
  from obs_eq_trans [OF this IH] show ?case by simp
qed

lemma second_pass_obs: "self_refs m t \<Longrightarrow> obs_eq (second_pass m t) t"
  unfolding second_pass_def by (rule second_pass_fold_obs) simp_all

lemma cache_pass_inv:
  assumes d: "distinct (map fst txs)"
  shows "pass1_inv txs (length txs) (cache_pass txs, snd (first_pass txs))"
proof -
  let ?t = "fst (first_pass txs)"
  let ?m = "snd (first_pass txs)"
  have inv: "pass1_inv txs (length txs) (?t, ?m)"
    using first_pass_inv [OF d] by simp
  then have all: "same_shape ?t txs
      \<and> (\<forall>key q i. (?m key = Some (q, i)) =
            (q < length txs \<and> key = (fst (txs ! q), int i) \<and> i < n_outputs txs q))"
    unfolding pass1_inv_def fst_conv snd_conv
    by (intro conjI) (erule conjunct1, erule conjunct2 [THEN conjunct1])
  note sh = all [THEN conjunct1]
  note mI = all [THEN conjunct2, rule_format]
  have s: "self_refs ?m ?t"
    unfolding self_refs_def
  proof (intro allI impI)
    fix q i r
    assume q: "q < length ?t" and r: "?m (fst (?t ! q), int i) = Some r"
    obtain q' i' where r': "r = (q', i')" by (cases r)
    from r r' mI [of "(fst (?t ! q), int i)" q' i']
    have q': "q' < length txs" and e: "(fst (?t ! q), int i) = (fst (txs ! q'), int i')"
      by simp_all
    from e same_shapeD(2) [OF sh, of q] have "fst (txs ! q') = fst (txs ! q)" and "i' = i"
      by simp_all
    moreover from q same_shapeD(1) [OF sh] have "q < length txs" by simp
    ultimately have "q' = q" using distinct_txid [OF d q'] by blast
    with \<open>i' = i\<close> r' show "r = (q, i)" by simp
  qed
  have o: "obs_eq (cache_pass txs) ?t"
    unfolding cache_pass_def by (rule second_pass_obs [OF s])
  from o have osh: "same_shape (cache_pass txs) ?t"
    and oin: "\<And>p k. input_cached (cache_pass txs) p k = input_cached ?t p k"
    and oout: "\<And>q i. output_cached (cache_pass txs) q i = output_cached ?t q i"
    by (simp_all add: obs_eq_def)
  have sh': "same_shape (cache_pass txs) txs"
    by (rule same_shape_trans [OF osh sh])
  from inv have rest: "(\<forall>key q i. (?m key = Some (q, i)) =
            (q < length txs \<and> key = (fst (txs ! q), int i) \<and> i < n_outputs txs q))
      \<and> (\<forall>p k. input_cached ?t p k =
            (input_cached txs p k
             \<or> (p < length txs \<and> k < n_inputs txs p
                 \<and> (\<exists>q<p. creates txs q (spent_key txs p k)))))
      \<and> (\<forall>q i. output_cached ?t q i =
            (output_cached txs q i
             \<or> (\<exists>p<length txs. \<exists>k<n_inputs txs p. q < p \<and> i < n_outputs txs q
                   \<and> spent_key txs p k = (fst (txs ! q), int i))))"
    unfolding pass1_inv_def fst_conv snd_conv by (rule conjunct2)
  show ?thesis
    unfolding pass1_inv_def fst_conv snd_conv oin oout
    by (rule conjI [OF sh' rest])
qed

text \<open>The dictionary \<^verbatim>\<open>block["data"]\<close> has distinct keys: the cache pass only ever runs on a
  block whose transaction ids are distinct.\<close>

lemma fold_update_distinct:
  "distinct (map fst d) \<Longrightarrow>
   distinct (map fst (fold (\<lambda>kv d. AList.update (fst kv) (snd kv) d) kvs d))"
  by (induction kvs arbitrary: d) (simp_all add: distinct_update)

lemma dict_of_distinct: "distinct (map fst (dict_of kvs))"
  unfolding dict_of_def by (rule fold_update_distinct) simp

lemma fetch_and_mark_distinct:
  assumes "fetch_and_mark nd mode fast h = Inr blk" and "data blk = Some txs"
  shows "\<exists>txs0. txs = cache_pass txs0 \<and> distinct (map fst txs0)"
proof -
  have "mode \<noteq> ''light''"
  proof
    assume "mode = ''light''"
    with assms show False
      by (auto simp add: fetch_and_mark_def fetch_block_header_def and_then_Inr_iff
          header.extend_def block.fields_def)
  qed
  with assms(1) obtain b t0 where b: "fetch_block nd h fast = Inr b"
    and t0: "data b = Some t0" and blk: "blk = b\<lparr>data := Some (cache_pass t0)\<rparr>"
    by (auto simp add: fetch_and_mark_def and_then_Inr_iff item_Inr_iff split: if_splits)
  from b obtain kvs where "data b = Some (dict_of kvs)"
    by (auto simp add: fetch_block_def and_then_Inr_iff header.extend_def block.fields_def
        split: if_splits)
  with t0 have "t0 = dict_of kvs" by simp
  then have "distinct (map fst t0)" by (simp only: dict_of_distinct)
  moreover from blk assms(2) have "txs = cache_pass t0" by simp
  ultimately show ?thesis by blast
qed

text \<open>
  C1. In a block (a dictionary: distinct transaction ids), let the transaction at position
  \<open>i\<close> have an output \<open>n\<close> and let input \<open>k\<close> of a later transaction, at position \<open>j\<close>, spend
  the outpoint made of the first one's id and \<open>n\<close>. After the cache pass the previous output
  of that input and the stored output \<open>n\<close> of the transaction at \<open>i\<close> are both flagged
  \<open>cached\<close>. Nothing else is flagged: an input's previous output that the pass flags has a
  key created by an earlier transaction of the block, and a stored output that the pass
  flags is spent by an input of a later transaction of the block. The pass changes no
  transaction id, no number of inputs or outputs and no outpoint of an input.
\<close>

theorem cache_pass_marks_spent_in_block:
  assumes d: "distinct (map fst txs)"
  shows "(i < j \<and> j < length txs \<and> k < n_inputs txs j \<and> n < n_outputs txs i
          \<and> spent_key txs j k = (fst (txs ! i), int n)
        \<longrightarrow> input_cached (cache_pass txs) j k \<and> output_cached (cache_pass txs) i n)
     \<and> (input_cached (cache_pass txs) p k' \<and> \<not> input_cached txs p k'
        \<longrightarrow> p < length txs \<and> k' < n_inputs txs p
          \<and> (\<exists>q<p. creates txs q (spent_key txs p k')))
     \<and> (output_cached (cache_pass txs) q m \<and> \<not> output_cached txs q m
        \<longrightarrow> m < n_outputs txs q
          \<and> (\<exists>p<length txs. \<exists>k<n_inputs txs p.
                q < p \<and> spent_key txs p k = (fst (txs ! q), int m)))
     \<and> same_shape (cache_pass txs) txs"
proof -
  from cache_pass_inv [OF d] have all: "same_shape (cache_pass txs) txs
      \<and> (\<forall>key q i. (snd (first_pass txs) key = Some (q, i)) =
            (q < length txs \<and> key = (fst (txs ! q), int i) \<and> i < n_outputs txs q))
      \<and> (\<forall>p k. input_cached (cache_pass txs) p k =
            (input_cached txs p k
             \<or> (p < length txs \<and> k < n_inputs txs p
                 \<and> (\<exists>q<p. creates txs q (spent_key txs p k)))))
      \<and> (\<forall>q i. output_cached (cache_pass txs) q i =
            (output_cached txs q i
             \<or> (\<exists>p<length txs. \<exists>k<n_inputs txs p. q < p \<and> i < n_outputs txs q
                   \<and> spent_key txs p k = (fst (txs ! q), int i))))"
    unfolding pass1_inv_def fst_conv snd_conv .
  note sh = all [THEN conjunct1]
  note inI = all [THEN conjunct2, THEN conjunct2, THEN conjunct1, rule_format]
  note outI = all [THEN conjunct2, THEN conjunct2, THEN conjunct2, rule_format]
  have A: "i < j \<and> j < length txs \<and> k < n_inputs txs j \<and> n < n_outputs txs i
          \<and> spent_key txs j k = (fst (txs ! i), int n)
        \<longrightarrow> input_cached (cache_pass txs) j k \<and> output_cached (cache_pass txs) i n"
  proof (intro impI, elim conjE)
    assume ij: "i < j" and j: "j < length txs" and k: "k < n_inputs txs j"
      and n: "n < n_outputs txs i" and key: "spent_key txs j k = (fst (txs ! i), int n)"
    have "creates txs i (spent_key txs j k)"
      using n by (simp add: key creates_def)
    with ij have "\<exists>q<j. creates txs q (spent_key txs j k)" by blast
    with j k have 1: "input_cached (cache_pass txs) j k"
      unfolding inI by blast
    have "\<exists>p<length txs. \<exists>k<n_inputs txs p. i < p \<and> n < n_outputs txs i
                   \<and> spent_key txs p k = (fst (txs ! i), int n)"
      using ij j k n key by blast
    then have 2: "output_cached (cache_pass txs) i n"
      unfolding outI by blast
    from 1 2 show "input_cached (cache_pass txs) j k \<and> output_cached (cache_pass txs) i n"
      by (rule conjI)
  qed
  have B: "input_cached (cache_pass txs) p k' \<and> \<not> input_cached txs p k'
        \<longrightarrow> p < length txs \<and> k' < n_inputs txs p
          \<and> (\<exists>q<p. creates txs q (spent_key txs p k'))"
    unfolding inI by blast
  have C: "output_cached (cache_pass txs) q m \<and> \<not> output_cached txs q m
        \<longrightarrow> m < n_outputs txs q
          \<and> (\<exists>p<length txs. \<exists>k<n_inputs txs p.
                q < p \<and> spent_key txs p k = (fst (txs ! q), int m))"
    unfolding outI by blast
  show ?thesis
    by (rule conjI [OF A conjI [OF B conjI [OF C sh]]])
qed

lemma example_cache_pass:
  "cache_pass example_block_txs =
     [(''c'', mk_tx [mk_in (replicate 64 (CHR ''0'')) 4294967295] [mk_out 50]),
      (''a'', mk_tx [mk_in ''x'' 1] [(mk_out 20)\<lparr>cached := True\<rparr>, mk_out 30]),
      (''b'', mk_tx
         [(mk_in ''a'' 0)\<lparr>previous_output :=
             (previous_output (mk_in ''a'' 0))\<lparr>op_data := (mk_out 7)\<lparr>cached := True\<rparr>\<rparr>\<rparr>,
          mk_in ''y'' 0]
         [mk_out 19])]"
  by (simp add: cp_defs example_block_txs_def mk_tx_def mk_in_def mk_out_def Let_def)

theorem cache_pass_marks_spent_in_block_witness:
  "distinct (map fst example_block_txs)
   \<and> spent_key example_block_txs 2 0 = (fst (example_block_txs ! 1), 0)
   \<and> input_cached (cache_pass example_block_txs) 2 0
   \<and> output_cached (cache_pass example_block_txs) 1 0
   \<and> \<not> input_cached (cache_pass example_block_txs) 2 1
   \<and> \<not> input_cached (cache_pass example_block_txs) 1 0
   \<and> \<not> input_cached (cache_pass example_block_txs) 0 0
   \<and> \<not> output_cached (cache_pass example_block_txs) 1 1
   \<and> \<not> output_cached (cache_pass example_block_txs) 0 0
   \<and> \<not> output_cached (cache_pass example_block_txs) 2 0
   \<and> map fst (cache_pass example_block_txs) = [''c'', ''a'', ''b'']"
proof -
  have d: "distinct (map fst example_block_txs)"
    by (simp add: example_block_txs_def)
  have h: "(1 :: nat) < 2 \<and> 2 < length example_block_txs \<and> 0 < n_inputs example_block_txs 2
      \<and> 0 < n_outputs example_block_txs 1
      \<and> spent_key example_block_txs 2 0 = (fst (example_block_txs ! 1), int 0)"
    by (simp add: example_block_txs_def n_inputs_def n_outputs_def spent_key_def mk_tx_def
        mk_in_def eval_nat_numeral)
  from cache_pass_marks_spent_in_block [OF d, of 1 2 0 0] h
  have m: "input_cached (cache_pass example_block_txs) 2 0
      \<and> output_cached (cache_pass example_block_txs) 1 0"
    by blast
  have r: "\<not> input_cached (cache_pass example_block_txs) 2 1
   \<and> \<not> input_cached (cache_pass example_block_txs) 1 0
   \<and> \<not> input_cached (cache_pass example_block_txs) 0 0
   \<and> \<not> output_cached (cache_pass example_block_txs) 1 1
   \<and> \<not> output_cached (cache_pass example_block_txs) 0 0
   \<and> \<not> output_cached (cache_pass example_block_txs) 2 0
   \<and> map fst (cache_pass example_block_txs) = [''c'', ''a'', ''b'']"
    unfolding example_cache_pass
    by (simp add: input_cached_def output_cached_def mk_tx_def mk_in_def mk_out_def
        eval_nat_numeral)
  from d h m r show ?thesis by simp
qed

subsection \<open>The satoshi value of an output\<close>

lemma num_digits_times_ten: "0 < m \<Longrightarrow> num_digits (m * 10) = Suc (num_digits m)"
  by (subst num_digits.simps) simp

lemma num_digits_shift: "0 < c \<Longrightarrow> num_digits (c * 10 ^ j) = num_digits c + j"
proof (induction j)
  case 0
  show ?case by simp
next
  case (Suc j)
  have "c * 10 ^ Suc j = (c * 10 ^ j) * 10" by simp
  moreover have "0 < c * 10 ^ j" using Suc.prems by simp
  ultimately have "num_digits (c * 10 ^ Suc j) = Suc (num_digits (c * 10 ^ j))"
    by (simp only: num_digits_times_ten)
  with Suc show ?case by simp
qed

lemma num_digits_le_iff: "0 < k \<Longrightarrow> num_digits n \<le> k \<longleftrightarrow> n < 10 ^ k"
proof (induction n arbitrary: k rule: num_digits.induct)
  case (1 n)
  show ?case
  proof (cases "n < 10")
    case True
    have "(10 :: nat) ^ 1 \<le> 10 ^ k"
      using 1(2) by (intro power_increasing) simp_all
    with True have "n < 10 ^ k" by simp
    moreover have "num_digits n = 1" using True by (subst num_digits.simps) simp
    ultimately show ?thesis using 1(2) by simp
  next
    case False
    have nd: "num_digits n = Suc (num_digits (n div 10))"
      using False by (subst num_digits.simps) simp
    show ?thesis
    proof (cases k)
      case 0
      with 1(2) show ?thesis by simp
    next
      case (Suc k')
      show ?thesis
      proof (cases "k' = 0")
        case True
        have "0 < num_digits (n div 10)"
          by (subst num_digits.simps) simp
        then show ?thesis using nd Suc True False by simp
      next
        case False
        then have "0 < k'" by simp
        from 1(1) [OF \<open>\<not> n < 10\<close> this] have "num_digits (n div 10) \<le> k' \<longleftrightarrow> n div 10 < 10 ^ k'" .
        moreover have "n div 10 < 10 ^ k' \<longleftrightarrow> n < 10 ^ k' * 10"
          by (simp add: div_less_iff_less_mult)
        ultimately show ?thesis using nd Suc by (simp add: mult.commute)
      qed
    qed
  qed
qed

lemma round_half_even_exact:
  "k \<le> j \<Longrightarrow> round_half_even (c * 10 ^ j) k = c * 10 ^ (j - k)"
proof -
  assume k: "k \<le> j"
  then have e: "c * 10 ^ j = (c * 10 ^ (j - k)) * 10 ^ k"
    by (simp add: power_add [symmetric])
  show ?thesis
    unfolding e round_half_even_def by (simp add: Let_def)
qed

lemma round_half_even_scale:
  "round_half_even (c * 10 ^ j) (j + m) = round_half_even c m"
proof -
  define A :: nat where "A = 10 ^ j"
  define B :: nat where "B = 10 ^ m"
  have A: "0 < A" by (simp add: A_def)
  have p: "(10 :: nat) ^ (j + m) = A * B" by (simp add: A_def B_def power_add)
  have d: "(A * c) div (A * B) = c div B"
    using A by simp
  have r: "(A * c) mod (A * B) = A * (c mod B)"
    by (rule mult_mod_right [symmetric])
  have g: "(A * B < 2 * (A * (c mod B))) = (B < 2 * (c mod B))"
  proof -
    have "2 * (A * (c mod B)) = A * (2 * (c mod B))" by simp
    then show ?thesis using A by (simp only: mult_less_cancel1) simp
  qed
  have h: "(2 * (A * (c mod B)) = A * B) = (2 * (c mod B) = B)"
  proof -
    have "2 * (A * (c mod B)) = A * (2 * (c mod B))" by simp
    then show ?thesis using A by (simp only: mult_cancel1) simp
  qed
  have "round_half_even (A * c) (j + m) =
      (if A * B < 2 * (A * (c mod B)) \<or> (2 * (A * (c mod B)) = A * B \<and> odd (c div B))
       then c div B + 1 else c div B)"
    unfolding round_half_even_def Let_def p d r ..
  also have "\<dots> = (if B < 2 * (c mod B) \<or> (2 * (c mod B) = B \<and> odd (c div B))
       then c div B + 1 else c div B)"
    unfolding g h ..
  also have "\<dots> = round_half_even c m"
    unfolding round_half_even_def Let_def B_def ..
  finally show ?thesis
    by (simp only: A_def mult.commute [of "10 ^ j" c])
qed

lemma round_half_even_nearest:
  "2 * \<bar>int (round_half_even c m) * 10 ^ m - int c\<bar> \<le> 10 ^ m"
proof -
  define B :: nat where "B = 10 ^ m"
  define q where "q = c div B"
  define r where "r = c mod B"
  define X :: int where "X = int B"
  have X: "X = 10 ^ m" by (simp add: X_def B_def)
  have B: "0 < B" by (simp add: B_def)
  have "c = q * B + r" by (simp add: q_def r_def)
  then have "int c = int (q * B + r)" by simp
  then have c: "int c = int q * X + int r" by (simp add: X_def)
  have "r < B" using B by (simp add: r_def)
  then have rX: "int r < X" by (simp add: X_def)
  show ?thesis
  proof (cases "2 * r > B \<or> (2 * r = B \<and> odd q)")
    case True
    then have rh: "round_half_even c m = q + 1"
      by (simp add: round_half_even_def Let_def B_def q_def r_def)
    from True have "B \<le> 2 * r" by auto
    then have "int B \<le> int (2 * r)" by (simp only: of_nat_le_iff)
    then have h: "X \<le> 2 * int r" by (simp add: X_def)
    have "int (round_half_even c m) * X - int c = X - int r"
      unfolding rh c by (simp add: algebra_simps)
    with h rX have "2 * \<bar>int (round_half_even c m) * X - int c\<bar> \<le> X" by simp
    then show ?thesis by (simp only: X)
  next
    case False
    then have rh: "round_half_even c m = q"
      by (simp add: round_half_even_def Let_def B_def q_def r_def)
    from False have "2 * r \<le> B" by auto
    then have "int (2 * r) \<le> int B" by (simp only: of_nat_le_iff)
    then have h: "2 * int r \<le> X" by (simp add: X_def)
    have "int (round_half_even c m) * X - int c = - int r"
      unfolding rh c by simp
    with h have "2 * \<bar>int (round_half_even c m) * X - int c\<bar> \<le> X" by simp
    then show ?thesis by (simp only: X)
  qed
qed

lemma fix_prec_product:
  assumes c: "c < 10 ^ 16"
  shows "\<exists>j\<le>8. fix_prec \<lparr>negative = s, coefficient = c * 10 ^ 8, exponent = e\<rparr> =
      \<lparr>negative = s, coefficient = c * 10 ^ (8 - j), exponent = e + int j\<rparr>"
proof (cases "c < 10 ^ 8")
  case True
  then have "c * 10 ^ 8 < 10 ^ 8 * 10 ^ 8" by simp
  then have "c * 10 ^ 8 < 10 ^ 16" by simp
  moreover have "num_digits (c * 10 ^ 8) \<le> 16 \<longleftrightarrow> c * 10 ^ 8 < 10 ^ 16"
    by (rule num_digits_le_iff [OF zero_less_numeral])
  ultimately have "num_digits (c * 10 ^ 8) \<le> 16"
    by blast
  then have "fix_prec \<lparr>negative = s, coefficient = c * 10 ^ 8, exponent = e\<rparr> =
      \<lparr>negative = s, coefficient = c * 10 ^ (8 - 0), exponent = e + int 0\<rparr>"
    by (simp add: fix_prec_def prec_def Let_def)
  then show ?thesis by blast
next
  case False
  then have pos: "0 < c" by simp
  define L where "L = num_digits c"
  have n: "num_digits (c * 10 ^ 8) = L + 8"
    unfolding L_def by (rule num_digits_shift [OF pos])
  have "num_digits c \<le> 16 \<longleftrightarrow> c < 10 ^ 16"
    by (rule num_digits_le_iff [OF zero_less_numeral])
  with c have "L \<le> 16"
    unfolding L_def by blast
  moreover have "num_digits c \<le> 8 \<longleftrightarrow> c < 10 ^ 8"
    by (rule num_digits_le_iff [OF zero_less_numeral])
  with False have "\<not> L \<le> 8"
    unfolding L_def by blast
  ultimately have j: "L - 8 \<le> 8" and j0: "0 < L - 8" and Lj: "L + 8 - 16 = L - 8"
    and gt: "\<not> L + 8 \<le> 16"
    by simp_all
  have q: "round_half_even (c * 10 ^ 8) (L - 8) = c * 10 ^ (8 - (L - 8))"
    by (rule round_half_even_exact [OF j])
  have "num_digits (c * 10 ^ (8 - (L - 8))) = L + (8 - (L - 8))"
    unfolding L_def by (rule num_digits_shift [OF pos])
  then have nq: "\<not> 16 < num_digits (c * 10 ^ (8 - (L - 8)))"
    using j j0 by simp
  have "fix_prec \<lparr>negative = s, coefficient = c * 10 ^ 8, exponent = e\<rparr> =
      \<lparr>negative = s, coefficient = c * 10 ^ (8 - (L - 8)), exponent = e + int (L - 8)\<rparr>"
    unfolding fix_prec_def prec_def Let_def decimal.simps n Lj q
    using gt nq by simp
  with j show ?thesis by blast
qed

lemma to_integral_product:
  assumes j: "j \<le> 8"
  shows "int_of_decimal (to_integral_value
           \<lparr>negative = s, coefficient = c * 10 ^ (8 - j), exponent = e + int j\<rparr>) =
     (if s then - 1 else 1) *
     (if - 8 \<le> e then int c * 10 ^ nat (e + 8)
      else int (round_half_even c (nat (- e - 8))))"
proof (cases "0 \<le> e + int j")
  case True
  with j have e: "- 8 \<le> e" by simp
  have "(8 - j) + nat (e + int j) = nat (e + 8)"
    using True j by simp
  then have "(10 :: int) ^ (8 - j) * 10 ^ nat (e + int j) = 10 ^ nat (e + 8)"
    by (simp only: power_add [symmetric])
  then have "int c * 10 ^ (8 - j) * 10 ^ nat (e + int j) = int c * 10 ^ nat (e + 8)"
    by (simp only: mult.assoc)
  then show ?thesis
    using True e by (simp add: to_integral_value_def int_of_decimal_def)
next
  case False
  then have ti: "to_integral_value
           \<lparr>negative = s, coefficient = c * 10 ^ (8 - j), exponent = e + int j\<rparr> =
        \<lparr>negative = s,
         coefficient = round_half_even (c * 10 ^ (8 - j)) (nat (- (e + int j))),
         exponent = 0\<rparr>"
    by (simp add: to_integral_value_def)
  show ?thesis
  proof (cases "- 8 \<le> e")
    case True
    then have k: "nat (- (e + int j)) \<le> 8 - j"
      using j by simp
    have d: "(8 - j) - nat (- (e + int j)) = nat (e + 8)"
      using True False j by simp
    have "round_half_even (c * 10 ^ (8 - j)) (nat (- (e + int j))) = c * 10 ^ nat (e + 8)"
      unfolding round_half_even_exact [OF k] d ..
    then show ?thesis
      unfolding ti using True by (simp add: int_of_decimal_def)
  next
    case False
    then have k: "nat (- (e + int j)) = (8 - j) + nat (- e - 8)"
      using j by simp
    have "round_half_even (c * 10 ^ (8 - j)) (nat (- (e + int j))) =
        round_half_even c (nat (- e - 8))"
      unfolding k by (rule round_half_even_scale)
    then show ?thesis
      unfolding ti using False by (simp add: int_of_decimal_def)
  qed
qed

lemma format_output_value:
  assumes "coefficient (btc_value out) < 10 ^ 16"
  shows "out_value (format_output out) =
     (if negative (btc_value out) then - 1 else 1) *
     (if - 8 \<le> exponent (btc_value out)
      then int (coefficient (btc_value out)) * 10 ^ nat (exponent (btc_value out) + 8)
      else int (round_half_even (coefficient (btc_value out))
                 (nat (- exponent (btc_value out) - 8))))"
proof -
  let ?d = "btc_value out"
  have m: "dec_mul ?d hundred_million =
      fix_prec \<lparr>negative = negative ?d, coefficient = coefficient ?d * 10 ^ 8,
                exponent = exponent ?d\<rparr>"
    by (simp add: dec_mul_def hundred_million_def)
  from fix_prec_product [OF assms, of "negative ?d" "exponent ?d"] obtain j where
    j: "j \<le> 8" and f: "fix_prec \<lparr>negative = negative ?d, coefficient = coefficient ?d * 10 ^ 8,
                exponent = exponent ?d\<rparr> =
      \<lparr>negative = negative ?d, coefficient = coefficient ?d * 10 ^ (8 - j),
       exponent = exponent ?d + int j\<rparr>"
    by blast
  have "out_value (format_output out) =
      int_of_decimal (to_integral_value (dec_mul ?d hundred_million))"
    by (simp add: format_output_def)
  also have "\<dots> = int_of_decimal (to_integral_value
      \<lparr>negative = negative ?d, coefficient = coefficient ?d * 10 ^ (8 - j),
       exponent = exponent ?d + int j\<rparr>)"
    by (simp only: m f)
  also note to_integral_product [OF j]
  finally show ?thesis .
qed


lemma format_output_pay:
  assumes "c < 10 ^ 16"
  shows "out_value (format_output (pay c e)) =
     (if - 8 \<le> e then int c * 10 ^ nat (e + 8) else int (round_half_even c (nat (- e - 8))))"
  using format_output_value [of "pay c e"] assms by (simp add: pay_def)

text \<open>
  C6. For an amount whose decimal numeral has at most 16 significant digits (every amount
  up to 21 million coins with 8 fractional digits has), the satoshi value of the formatted
  output is the amount times \<open>10^8\<close>, computed exactly: with at most 8 fractional digits
  (exponent at least \<open>-8\<close>) it is the integer \<open>coefficient * 10 ^ (exponent + 8)\<close>, and with
  more it is that product rounded to a nearest integer, a tie going to the even one, so
  that it differs from the exact product by at most one half. The context's precision of
  16 digits never rounds such a product. The amount \<^verbatim>\<open>0.00000001\<close> gives 1, and
  \<^verbatim>\<open>21000000.00000000\<close>, whether written with one fractional digit, as \<^verbatim>\<open>str\<close> prints it,
  or with eight, gives 2100000000000000.
\<close>

theorem format_output_exact_satoshis:
  assumes "coefficient (btc_value out) < 10 ^ 16"
  shows "out_value (format_output out) =
       (if negative (btc_value out) then - 1 else 1) *
       (if - 8 \<le> exponent (btc_value out)
        then int (coefficient (btc_value out)) * 10 ^ nat (exponent (btc_value out) + 8)
        else int (round_half_even (coefficient (btc_value out))
                   (nat (- exponent (btc_value out) - 8))))
     \<and> (exponent (btc_value out) < - 8 \<longrightarrow>
          2 * \<bar>out_value (format_output out) * 10 ^ nat (- exponent (btc_value out) - 8)
               - (if negative (btc_value out) then - 1 else 1)
                 * int (coefficient (btc_value out))\<bar>
          \<le> 10 ^ nat (- exponent (btc_value out) - 8))
     \<and> out_value (format_output (pay 1 (- 8))) = 1
     \<and> out_value (format_output (pay 210000000 (- 1))) = 2100000000000000
     \<and> out_value (format_output (pay 2100000000000000 (- 8))) = 2100000000000000"
proof -
  let ?d = "btc_value out"
  let ?m = "nat (- exponent ?d - 8)"
  note v = format_output_value [OF assms]
  have n: "2 * \<bar>out_value (format_output out) * 10 ^ ?m
               - (if negative ?d then - 1 else 1) * int (coefficient ?d)\<bar> \<le> 10 ^ ?m"
    if e: "exponent ?d < - 8"
  proof -
    from e have v': "out_value (format_output out) =
        (if negative ?d then - 1 else 1) * int (round_half_even (coefficient ?d) ?m)"
      unfolding v by simp
    note r = round_half_even_nearest [of "coefficient ?d" ?m]
    show ?thesis
    proof (cases "negative ?d")
      case True
      have "out_value (format_output out) * 10 ^ ?m - (- 1) * int (coefficient ?d) =
          - (int (round_half_even (coefficient ?d) ?m) * 10 ^ ?m - int (coefficient ?d))"
        unfolding v' using True by simp
      then have "\<bar>out_value (format_output out) * 10 ^ ?m - (- 1) * int (coefficient ?d)\<bar> =
          \<bar>int (round_half_even (coefficient ?d) ?m) * 10 ^ ?m - int (coefficient ?d)\<bar>"
        by (simp only: abs_minus_cancel)
      with r True show ?thesis by simp
    next
      case False
      have "out_value (format_output out) * 10 ^ ?m - 1 * int (coefficient ?d) =
          int (round_half_even (coefficient ?d) ?m) * 10 ^ ?m - int (coefficient ?d)"
        unfolding v' using False by simp
      with r False show ?thesis by simp
    qed
  qed
  have p1: "out_value (format_output (pay 1 (- 8))) = 1"
    by (subst format_output_pay) simp_all
  have p2: "out_value (format_output (pay 210000000 (- 1))) = 2100000000000000"
    by (subst format_output_pay) simp_all
  have p3: "out_value (format_output (pay 2100000000000000 (- 8))) = 2100000000000000"
    by (subst format_output_pay) simp_all
  from v n p1 p2 p3 show ?thesis by blast
qed

theorem format_output_exact_satoshis_witness:
  "coefficient (btc_value (pay 15 (- 9))) < 10 ^ 16
   \<and> exponent (btc_value (pay 15 (- 9))) < - 8
   \<and> out_value (format_output (pay 15 (- 9))) = 2
   \<and> out_value (format_output (pay 25 (- 9))) = 2
   \<and> out_value (format_output (pay 1999999999 (- 8))) = 1999999999
   \<and> out_value (format_output (pay 500 (- 1))) = 5000000000"
proof -
  have h: "coefficient (btc_value (pay 15 (- 9))) < 10 ^ 16"
    "coefficient (btc_value (pay 25 (- 9))) < 10 ^ 16"
    "coefficient (btc_value (pay 1999999999 (- 8))) < 10 ^ 16"
    "coefficient (btc_value (pay 500 (- 1))) < 10 ^ 16"
    by (simp_all add: pay_def)
  have e: "exponent (btc_value (pay 15 (- 9))) < - 8"
    by (simp add: pay_def)
  have r: "round_half_even 15 (Suc 0) = 2" "round_half_even 25 (Suc 0) = 2"
    by (simp_all add: round_half_even_def)
  from format_output_exact_satoshis [OF h(1)] have a:
    "out_value (format_output (pay 15 (- 9))) = 2"
    by (simp add: pay_def r)
  from format_output_exact_satoshis [OF h(2)] have b:
    "out_value (format_output (pay 25 (- 9))) = 2"
    by (simp add: pay_def r)
  from format_output_exact_satoshis [OF h(3)] have c:
    "out_value (format_output (pay 1999999999 (- 8))) = 1999999999"
    by (simp add: pay_def)
  from format_output_exact_satoshis [OF h(4)] have d:
    "out_value (format_output (pay 500 (- 1))) = 5000000000"
    by (simp add: pay_def)
  from h(1) e a b c d show ?thesis by blast
qed

end
